theory Spec2Isabelle
  imports Complex_Main "HOL-Library.Log_Nat"
begin

section \<open>Python values used by weETH-USDC.py\<close>

subsection \<open>Exceptions\<close>

text \<open>
  The exceptions that the operations of the script can raise. A computation that can raise
  has a result of type \<open>exn + 'a\<close>, with \<open>Inl\<close> for the exception. \<open>RequestException\<close>
  stands for whatever \<open>requests.post\<close> raises, \<open>JSONDecodeError\<close> for what
  \<open>response.json()\<close> raises on a body that is not JSON.
\<close>

datatype exn =
    TypeError | ValueError | KeyError | IndexError | AttributeError | OverflowError
  | ZeroDivisionError | RequestException | JSONDecodeError

fun bind_exn :: "exn + 'a \<Rightarrow> ('a \<Rightarrow> exn + 'b) \<Rightarrow> exn + 'b" where
  "bind_exn (Inl e) f = Inl e"
| "bind_exn (Inr x) f = f x"

subsection \<open>Floats\<close>

text \<open>
  A Python float is an IEEE 754 binary64 number. A finite float is represented by its value,
  a rational; the two zeros are identified (no operation of the script tells them apart:
  \<open>==\<close>, truth value, division by zero and \<open>math.sqrt\<close> treat them alike).
  Every arithmetic operation computes the exact result and rounds it to the nearest
  binary64 number, ties to even.
\<close>

datatype pyfloat = Fin rat | PInf | NInf | NaN

definition round_half_even :: "rat \<Rightarrow> int" where
  "round_half_even q =
     (let f = \<lfloor>q\<rfloor>; d = q - of_int f
      in if d < 1 / 2 then f else if 1 / 2 < d then f + 1 else if even f then f else f + 1)"

text \<open>\<open>binade q\<close> is the exponent \<open>e\<close> with \<open>2^e \<le> |q| < 2^(e+1)\<close>, for \<open>q \<noteq> 0\<close>.\<close>

definition binade :: "rat \<Rightarrow> int" where
  "binade q =
     (let (a, b) = quotient_of q; d = bitlen \<bar>a\<bar> - bitlen b
      in if 2 powi d \<le> \<bar>q\<bar> then d else d - 1)"

text \<open>
  Rounding to binary64: 53 significant bits, the spacing never below \<open>2^-1074\<close>
  (subnormal numbers), and a result of magnitude \<open>2^1024\<close> or more overflows.
\<close>

definition to_double :: "rat \<Rightarrow> pyfloat" where
  "to_double q =
     (if q = 0 then Fin 0
      else let u = 2 powi (max (binade q - 52) (- 1074));
               r = of_int (round_half_even (q / u)) * u
           in if 2 ^ 1024 \<le> \<bar>r\<bar> then (if 0 < q then PInf else NInf) else Fin r)"

fun fneg :: "pyfloat \<Rightarrow> pyfloat" where
  "fneg (Fin a) = Fin (- a)"
| "fneg PInf = NInf"
| "fneg NInf = PInf"
| "fneg NaN = NaN"

fun fadd :: "pyfloat \<Rightarrow> pyfloat \<Rightarrow> pyfloat" where
  "fadd (Fin a) (Fin b) = to_double (a + b)"
| "fadd NaN y = NaN"
| "fadd x NaN = NaN"
| "fadd PInf NInf = NaN"
| "fadd NInf PInf = NaN"
| "fadd PInf y = PInf"
| "fadd NInf y = NInf"
| "fadd x PInf = PInf"
| "fadd x NInf = NInf"

definition fsub :: "pyfloat \<Rightarrow> pyfloat \<Rightarrow> pyfloat" where
  "fsub x y = fadd x (fneg y)"

definition fsign :: "pyfloat \<Rightarrow> int" where
  "fsign x =
     (case x of
        Fin a \<Rightarrow> if a < 0 then - 1 else if a = 0 then 0 else 1
      | PInf \<Rightarrow> 1
      | NInf \<Rightarrow> - 1
      | NaN \<Rightarrow> 0)"

definition inf_of_sign :: "int \<Rightarrow> pyfloat" where
  "inf_of_sign s = (if s = 0 then NaN else if 0 < s then PInf else NInf)"

fun fmul :: "pyfloat \<Rightarrow> pyfloat \<Rightarrow> pyfloat" where
  "fmul (Fin a) (Fin b) = to_double (a * b)"
| "fmul NaN y = NaN"
| "fmul x NaN = NaN"
| "fmul x y = inf_of_sign (fsign x * fsign y)"

text \<open>IEEE division; Python raises before it is reached with a zero divisor.\<close>

fun fdiv :: "pyfloat \<Rightarrow> pyfloat \<Rightarrow> pyfloat" where
  "fdiv (Fin a) (Fin b) = (if b = 0 then inf_of_sign (fsign (Fin a)) else to_double (a / b))"
| "fdiv NaN y = NaN"
| "fdiv x NaN = NaN"
| "fdiv (Fin a) y = Fin 0"
| "fdiv x (Fin b) = inf_of_sign (fsign x * (if b < 0 then - 1 else 1))"
| "fdiv x y = NaN"

text \<open>
  The correctly rounded square root. \<open>isqrt n\<close> is the integer part of the root of \<open>n\<close>;
  the argument is scaled by a power of four so that the integer root has 56 bits, and a
  half is added when the root is inexact, which leaves at least two bits below the last
  bit kept and so does not change the rounding.
\<close>

function isqrt :: "nat \<Rightarrow> nat" where
  "isqrt n =
     (if n < 2 then n
      else let r = 2 * isqrt (n div 4) in if (r + 1) * (r + 1) \<le> n then r + 1 else r)"
  by pat_completeness auto
termination
  by (relation "measure id") auto

declare isqrt.simps [simp del]

definition sqrt_double :: "rat \<Rightarrow> pyfloat" where
  "sqrt_double q =
     (if q = 0 then Fin 0
      else let k = 55 - binade q div 2;
               x = q * 4 powi k;
               s = isqrt (nat \<lfloor>x\<rfloor>);
               h = (if of_nat (s * s) = x then 0 else 1 / 2)
           in to_double ((of_nat s + h) / 2 powi k))"

fun fsqrt :: "pyfloat \<Rightarrow> pyfloat" where
  "fsqrt (Fin a) = (if a < 0 then NaN else sqrt_double a)"
| "fsqrt PInf = PInf"
| "fsqrt NInf = NaN"
| "fsqrt NaN = NaN"

definition is_finite :: "pyfloat \<Rightarrow> bool" where
  "is_finite x = (case x of Fin a \<Rightarrow> True | _ \<Rightarrow> False)"

text \<open>
  \<open>float(n)\<close> for an \<open>int\<close>: the nearest float, \<open>OverflowError\<close> when it would not
  be finite.
\<close>

definition float_of_int :: "int \<Rightarrow> exn + pyfloat" where
  "float_of_int n = (case to_double (of_int n) of Fin r \<Rightarrow> Inr (Fin r) | _ \<Rightarrow> Inl OverflowError)"

text \<open>\<open>x / y\<close> for floats: \<open>ZeroDivisionError\<close> when \<open>y\<close> is zero, whatever \<open>x\<close> is.\<close>

definition float_truediv :: "pyfloat \<Rightarrow> pyfloat \<Rightarrow> exn + pyfloat" where
  "float_truediv x y = (if y = Fin 0 then Inl ZeroDivisionError else Inr (fdiv x y))"

text \<open>\<open>x / n\<close> for a float and an \<open>int\<close>: the \<open>int\<close> is converted first.\<close>

definition float_truediv_int :: "pyfloat \<Rightarrow> int \<Rightarrow> exn + pyfloat" where
  "float_truediv_int x n = bind_exn (float_of_int n) (float_truediv x)"

text \<open>\<open>math.sqrt\<close>: \<open>ValueError\<close> on a negative argument (\<open>-inf\<close> included), nan for nan.\<close>

definition math_sqrt :: "pyfloat \<Rightarrow> exn + pyfloat" where
  "math_sqrt x =
     (case x of
        Fin a \<Rightarrow> if a < 0 then Inl ValueError else Inr (fsqrt x)
      | NInf \<Rightarrow> Inl ValueError
      | _ \<Rightarrow> Inr (fsqrt x))"

text \<open>
  \<open>round(x, ndigits)\<close> for a float and \<open>0 \<le> ndigits\<close>: nan and the infinities round to
  themselves; a finite \<open>x\<close> is rounded, ties to even, to the decimal with \<open>ndigits\<close>
  places, which is then converted to the nearest float (\<open>OverflowError\<close> should that
  not be finite).
\<close>

definition py_round :: "pyfloat \<Rightarrow> nat \<Rightarrow> exn + pyfloat" where
  "py_round x ndigits =
     (case x of
        Fin a \<Rightarrow>
          (case to_double (of_int (round_half_even (a * 10 ^ ndigits)) / 10 ^ ndigits) of
             Fin r \<Rightarrow> Inr (Fin r)
           | _ \<Rightarrow> Inl OverflowError)
      | _ \<Rightarrow> Inr x)"

subsection \<open>Strings read as numbers\<close>

text \<open>
  Strings are sequences of characters with code points below 256. \<open>float\<close> and \<open>int\<close>
  first strip white space from both ends.
\<close>

definition is_space :: "char \<Rightarrow> bool" where
  "is_space c = ((of_char c :: nat) \<in> {9, 10, 11, 12, 13, 32, 133, 160})"

definition strip :: "string \<Rightarrow> string" where
  "strip s = rev (dropWhile is_space (rev (dropWhile is_space s)))"

definition is_digit :: "char \<Rightarrow> bool" where
  "is_digit c = (48 \<le> (of_char c :: nat) \<and> (of_char c :: nat) \<le> 57)"

definition digit_val :: "char \<Rightarrow> int" where
  "digit_val c = of_char c - 48"

definition decimal :: "string \<Rightarrow> int" where
  "decimal ds = foldl (\<lambda>n c. 10 * n + digit_val c) 0 ds"

text \<open>
  \<open>digitpart\<close> reads digits, single underscores allowed between two digits, and returns
  the digits read and the rest of the string.
\<close>

fun digitpart :: "string \<Rightarrow> string \<times> string" where
  "digitpart [] = ([], [])"
| "digitpart (c # cs) =
     (if is_digit c then
        (case cs of
           u # d # cs' \<Rightarrow>
             if u = CHR ''_'' then
               (if is_digit d then (let (ds, r) = digitpart (d # cs') in (c # ds, r))
                else ([c], cs))
             else (let (ds, r) = digitpart cs in (c # ds, r))
         | _ \<Rightarrow> (let (ds, r) = digitpart cs in (c # ds, r)))
      else ([], c # cs))"

definition parse_sign :: "string \<Rightarrow> bool \<times> string" where
  "parse_sign s =
     (case s of
        [] \<Rightarrow> (False, s)
      | c # r \<Rightarrow> if c = CHR ''-'' then (True, r) else if c = CHR ''+'' then (False, r) else (False, s))"

definition lower :: "char \<Rightarrow> char" where
  "lower c = (if 65 \<le> (of_char c :: nat) \<and> (of_char c :: nat) \<le> 90
              then char_of ((of_char c :: nat) + 32) else c)"

definition exponent :: "string \<Rightarrow> int option" where
  "exponent r =
     (case r of
        [] \<Rightarrow> Some 0
      | c # t \<Rightarrow>
          if c = CHR ''e'' \<or> c = CHR ''E'' then
            (let (neg, t') = parse_sign t; (ds, rest) = digitpart t'
             in if ds \<noteq> [] \<and> rest = []
                then Some ((if neg then - 1 else 1) * decimal ds) else None)
          else None)"

text \<open>
  \<open>float(s)\<close> for a string: a sign, then \<open>inf\<close>, \<open>infinity\<close> or \<open>nan\<close> in any case,
  or a decimal number with an optional exponent; the value is the nearest float, an
  infinity when it is too large. \<open>None\<close> is Python's \<open>ValueError\<close>.
\<close>

definition float_of_string :: "string \<Rightarrow> pyfloat option" where
  "float_of_string s0 =
     (let (neg, s) = parse_sign (strip s0); l = map lower s
      in if l = ''inf'' \<or> l = ''infinity'' then Some (if neg then NInf else PInf)
         else if l = ''nan'' then Some NaN
         else let (ip, r1) = digitpart s;
                  (fp, r2) = (case r1 of [] \<Rightarrow> ([], r1)
                              | c # t \<Rightarrow> if c = CHR ''.'' then digitpart t else ([], r1))
              in if ip = [] \<and> fp = [] then None
                 else (case exponent r2 of
                         None \<Rightarrow> None
                       | Some ex \<Rightarrow>
                           Some (to_double ((if neg then - 1 else 1) * of_int (decimal (ip @ fp))
                                            * 10 powi (ex - int (length fp))))))"

text \<open>
  \<open>int(s)\<close> for a string, base ten: a sign and digits. CPython (3.11 and later, default
  settings) refuses more than 4300 digits.
\<close>

definition int_of_string :: "string \<Rightarrow> int option" where
  "int_of_string s0 =
     (let (neg, s) = parse_sign (strip s0); (ds, rest) = digitpart s
      in if ds \<noteq> [] \<and> rest = [] \<and> length ds \<le> 4300
         then Some ((if neg then - 1 else 1) * decimal ds) else None)"

subsection \<open>Values decoded from JSON\<close>

text \<open>
  What \<open>response.json()\<close> returns: \<open>None\<close>, a \<open>bool\<close>, an \<open>int\<close>, a float, a
  string, a list, or a dict with string keys (an association list with distinct keys).
\<close>

datatype json =
    JNull | JBool bool | JInt int | JFloat pyfloat | JStr string
  | JArr "json list" | JObj "(string \<times> json) list"

text \<open>The truth value of an object, as \<open>if x\<close> and \<open>not x\<close> take it.\<close>

fun py_truthy :: "json \<Rightarrow> bool" where
  "py_truthy JNull = False"
| "py_truthy (JBool b) = b"
| "py_truthy (JInt n) = (n \<noteq> 0)"
| "py_truthy (JFloat x) = (x \<noteq> Fin 0)"
| "py_truthy (JStr s) = (s \<noteq> [])"
| "py_truthy (JArr xs) = (xs \<noteq> [])"
| "py_truthy (JObj kvs) = (kvs \<noteq> [])"

fun py_str_contains :: "string \<Rightarrow> string \<Rightarrow> bool" where
  "py_str_contains sub [] = (sub = [])"
| "py_str_contains sub (c # cs) = (take (length sub) (c # cs) = sub \<or> py_str_contains sub cs)"

text \<open>\<open>k in x\<close> for a string \<open>k\<close>.\<close>

fun py_contains :: "string \<Rightarrow> json \<Rightarrow> exn + bool" where
  "py_contains k (JObj kvs) = Inr (k \<in> set (map fst kvs))"
| "py_contains k (JArr xs) = Inr (JStr k \<in> set xs)"
| "py_contains k (JStr s) = Inr (py_str_contains k s)"
| "py_contains k x = Inl TypeError"

text \<open>\<open>x.get(k, default)\<close>: only a dict has the method.\<close>

fun py_get :: "json \<Rightarrow> string \<Rightarrow> json \<Rightarrow> exn + json" where
  "py_get (JObj kvs) k dflt = Inr (case map_of kvs k of None \<Rightarrow> dflt | Some v \<Rightarrow> v)"
| "py_get x k dflt = Inl AttributeError"

text \<open>\<open>x[k]\<close> for a string \<open>k\<close>.\<close>

fun py_getitem :: "json \<Rightarrow> string \<Rightarrow> exn + json" where
  "py_getitem (JObj kvs) k = (case map_of kvs k of None \<Rightarrow> Inl KeyError | Some v \<Rightarrow> Inr v)"
| "py_getitem x k = Inl TypeError"

text \<open>\<open>x[0]\<close>.\<close>

fun py_getitem0 :: "json \<Rightarrow> exn + json" where
  "py_getitem0 (JArr xs) = (case xs of [] \<Rightarrow> Inl IndexError | x # _ \<Rightarrow> Inr x)"
| "py_getitem0 (JStr s) = (case s of [] \<Rightarrow> Inl IndexError | c # _ \<Rightarrow> Inr (JStr [c]))"
| "py_getitem0 (JObj kvs) = Inl KeyError"
| "py_getitem0 x = Inl TypeError"

text \<open>\<open>float(x)\<close>.\<close>

fun py_float :: "json \<Rightarrow> exn + pyfloat" where
  "py_float JNull = Inl TypeError"
| "py_float (JBool b) = Inr (Fin (if b then 1 else 0))"
| "py_float (JInt n) = float_of_int n"
| "py_float (JFloat x) = Inr x"
| "py_float (JStr s) = (case float_of_string s of None \<Rightarrow> Inl ValueError | Some x \<Rightarrow> Inr x)"
| "py_float (JArr xs) = Inl TypeError"
| "py_float (JObj kvs) = Inl TypeError"

text \<open>\<open>int(x)\<close>: a float is truncated, with no integer for nan or an infinity.\<close>

fun py_int :: "json \<Rightarrow> exn + int" where
  "py_int JNull = Inl TypeError"
| "py_int (JBool b) = Inr (if b then 1 else 0)"
| "py_int (JInt n) = Inr n"
| "py_int (JFloat x) =
     (case x of
        Fin a \<Rightarrow> Inr (if 0 \<le> a then \<lfloor>a\<rfloor> else \<lceil>a\<rceil>)
      | NaN \<Rightarrow> Inl ValueError
      | _ \<Rightarrow> Inl OverflowError)"
| "py_int (JStr s) = (case int_of_string s of None \<Rightarrow> Inl ValueError | Some n \<Rightarrow> Inr n)"
| "py_int (JArr xs) = Inl TypeError"
| "py_int (JObj kvs) = Inl TypeError"

section \<open>The script\<close>

subsection \<open>\<open>normalize_value\<close>\<close>

text \<open>
  \<^verbatim>\<open>
  def normalize_value(value, decimals):
      try:
          return float(value) / (10 ** decimals)
      except (TypeError, ValueError):
          print(f"Error normalizing value: {value}")
          return None
  \<close>
  \<open>decimals\<close> is a count of decimal places, a natural number (the script passes 12 and
  6), so \<open>10 ** decimals\<close> is an \<open>int\<close>. The \<open>except\<close> clause catches two classes of
  exception; any other passes to the caller. The printed line is not modelled.
\<close>

definition normalize_value :: "json \<Rightarrow> nat \<Rightarrow> exn + pyfloat option" where
  "normalize_value v decimals =
     (case bind_exn (py_float v) (\<lambda>x. float_truediv_int x (10 ^ decimals)) of
        Inr y \<Rightarrow> Inr (Some y)
      | Inl TypeError \<Rightarrow> Inr None
      | Inl ValueError \<Rightarrow> Inr None
      | Inl e \<Rightarrow> Inl e)"

subsection \<open>The two index services\<close>

text \<open>
  \<open>requests.post\<close> is the only access to the network. A request is identified by what
  the script puts into it: the timestamp for the block index, the pool identifier and
  the block for the pool index. The network is a function that gives, after the requests
  sent so far, the outcome of the next one: an exception, or a response with its status
  code and its body decoded as JSON (\<open>None\<close> when the body is not JSON). The list of
  requests sent is part of the state.
\<close>

datatype request = BlockQuery int | PoolQuery string json

record response =
  status_code :: int
  body :: "json option"

type_synonym network = "request list \<Rightarrow> request \<Rightarrow> exn + response"

definition post :: "network \<Rightarrow> request list \<Rightarrow> request \<Rightarrow> exn + response \<times> request list" where
  "post net sent req = bind_exn (net sent req) (\<lambda>r. Inr (r, sent @ [req]))"

definition response_json :: "response \<Rightarrow> exn + json" where
  "response_json r = (case body r of None \<Rightarrow> Inl JSONDecodeError | Some d \<Rightarrow> Inr d)"

text \<open>
  \<^verbatim>\<open>
  def get_block_from_timestamp(timestamp, block_subgraph_url):
      ...
      response = requests.post(block_subgraph_url, json={'query': query_template}, headers=headers)
      if response.status_code != 200:
          return None
      data = response.json()
      if "errors" in data:
          print(f"GraphQL errors: {data['errors']}")
          return None
      blocks = data.get("data", {}).get("blocks", [])
      if not blocks:
          return None
      block = blocks[0]
      print(f"Found block {block['number']} for timestamp {timestamp}")
      return block["number"]
  \<close>
  The result is \<open>None\<close> (here \<open>JNull\<close>) or whatever the index gave as the block's number.
  Of the printed lines, two evaluate a subscript and can raise: \<open>data['errors']\<close>, when
  \<open>data\<close> is a list or a string that contains \<open>"errors"\<close>, and \<open>block['number']\<close>,
  which the \<open>return\<close> evaluates again.
\<close>

definition get_block_from_timestamp ::
    "int \<Rightarrow> network \<Rightarrow> request list \<Rightarrow> exn + json \<times> request list" where
  "get_block_from_timestamp timestamp net sent =
     bind_exn (post net sent (BlockQuery timestamp)) (\<lambda>(response, sent').
       if status_code response \<noteq> 200 then Inr (JNull, sent')
       else
         bind_exn (response_json response) (\<lambda>data.
         bind_exn (py_contains ''errors'' data) (\<lambda>has_errors.
           if has_errors then bind_exn (py_getitem data ''errors'') (\<lambda>errors. Inr (JNull, sent'))
           else
             bind_exn (py_get data ''data'' (JObj [])) (\<lambda>d.
             bind_exn (py_get d ''blocks'' (JArr [])) (\<lambda>blocks.
               if \<not> py_truthy blocks then Inr (JNull, sent')
               else
                 bind_exn (py_getitem0 blocks) (\<lambda>block.
                 bind_exn (py_getitem block ''number'') (\<lambda>number.
                   Inr (number, sent'))))))))"

text \<open>
  \<^verbatim>\<open>
  def query_pool_at_block(graph_url, pool_id, block):
      ...
      response = requests.post(graph_url, json={'query': query_template}, headers=headers)
      if response.status_code != 200:
          return None
      data = response.json()
      if "errors" in data:
          print(f"GraphQL errors: {data['errors']}")
          return None
      return data.get("data", {}).get("gammaPool", None)
  \<close>
\<close>

definition query_pool_at_block ::
    "network \<Rightarrow> string \<Rightarrow> json \<Rightarrow> request list \<Rightarrow> exn + json \<times> request list" where
  "query_pool_at_block net pool_id block sent =
     bind_exn (post net sent (PoolQuery pool_id block)) (\<lambda>(response, sent').
       if status_code response \<noteq> 200 then Inr (JNull, sent')
       else
         bind_exn (response_json response) (\<lambda>data.
         bind_exn (py_contains ''errors'' data) (\<lambda>has_errors.
           if has_errors then bind_exn (py_getitem data ''errors'') (\<lambda>errors. Inr (JNull, sent'))
           else
             bind_exn (py_get data ''data'' (JObj [])) (\<lambda>d.
             bind_exn (py_get d ''gammaPool'' JNull) (\<lambda>pool.
               Inr (pool, sent'))))))"

subsection \<open>The output file\<close>

text \<open>
  One row of the CSV file, with the values as the script puts them into \<open>csv_row\<close>.
\<close>

record csv_row =
  utcTimestamp :: string
  blockNumber :: json
  totalInvariant :: pyfloat
  totalSupply :: pyfloat
  lastPrice :: pyfloat
  totalLPReturnPercent :: "pyfloat option"
  spotReturnPercent :: "pyfloat option"

datatype csv_line = Header "string list" | Row csv_row

definition fieldnames :: "string list" where
  "fieldnames =
     [''utcTimestamp'', ''blockNumber'', ''totalInvariant'', ''totalSupply'', ''lastPrice'',
      ''totalLPReturnPercent'', ''spotReturnPercent'']"

text \<open>
  \<^verbatim>\<open>
  def save_to_csv(data, filename="weETH-USDC_Data.csv"):
      file_exists = False
      try:
          with open(filename, 'r') as file:
              file_exists = True
      except FileNotFoundError:
          file_exists = False
      with open(filename, mode='a', newline='') as file:
          writer = csv.DictWriter(file, fieldnames=data.keys())
          if not file_exists:
              writer.writeheader()
          writer.writerow(data)
  \<close>
  The file is \<open>None\<close> while it does not exist, and the list of its lines otherwise. It is
  taken to be an ordinary file that can be read and appended to.
\<close>

definition save_to_csv :: "csv_row \<Rightarrow> csv_line list option \<Rightarrow> csv_line list option" where
  "save_to_csv data file =
     (case file of
        None \<Rightarrow> Some [Header fieldnames, Row data]
      | Some ls \<Rightarrow> Some (ls @ [Row data]))"

subsection \<open>The time stamp of a row\<close>

text \<open>
  \<open>datetime.utcfromtimestamp(t).strftime('%Y-%m-%d %H:%M:%S')\<close>: the date of the
  proleptic Gregorian calendar, for the years 1 to 9999, and \<open>ValueError\<close> outside
  (far outside, the platform may raise \<open>OverflowError\<close> or \<open>OSError\<close> instead). The
  year is written without padding, as glibc does.
\<close>

function show_nat :: "nat \<Rightarrow> string" where
  "show_nat n =
     (if n < 10 then [char_of (48 + n)] else show_nat (n div 10) @ [char_of (48 + n mod 10)])"
  by pat_completeness auto
termination
  by (relation "measure id") auto

declare show_nat.simps [simp del]

definition pad2 :: "int \<Rightarrow> string" where
  "pad2 n = (if n < 10 then CHR ''0'' # show_nat (nat n) else show_nat (nat n))"

definition civil_from_days :: "int \<Rightarrow> int \<times> int \<times> int" where
  "civil_from_days z =
     (let z' = z + 719468;
          era = z' div 146097;
          doe = z' mod 146097;
          yoe = (doe - doe div 1460 + doe div 36524 - doe div 146096) div 365;
          doy = doe - (365 * yoe + yoe div 4 - yoe div 100);
          mp = (5 * doy + 2) div 153;
          d = doy - (153 * mp + 2) div 5 + 1;
          m = (if mp < 10 then mp + 3 else mp - 9);
          y = yoe + era * 400 + (if m \<le> 2 then 1 else 0)
      in (y, m, d))"

definition utc_string :: "int \<Rightarrow> exn + string" where
  "utc_string t =
     (if t < - 62135596800 \<or> 253402300799 < t then Inl ValueError
      else let (y, m, d) = civil_from_days (t div 86400);
               r = t mod 86400
           in Inr (show_nat (nat y) @ ''-'' @ pad2 m @ ''-'' @ pad2 d @ '' ''
                   @ pad2 (r div 3600) @ '':'' @ pad2 (r mod 3600 div 60) @ '':'' @ pad2 (r mod 60)))"

subsection \<open>\<open>main\<close>\<close>

text \<open>
  The variables of \<open>main\<close> that change: the cursor \<open>current_timestamp\<close>, the baseline
  \<open>pool_creation_data\<close> (\<open>None\<close> until the first sample), the output file and the
  requests sent. The baseline is a dict with three keys; its \<open>totalInvariant\<close> is the
  result of an addition, a float, and the other two are results of \<open>normalize_value\<close>.
\<close>

record creation_data =
  pcd_totalInvariant :: pyfloat
  pcd_totalSupply :: "pyfloat option"
  pcd_lastPrice :: "pyfloat option"

record state =
  current_timestamp :: int
  pool_creation_data :: "creation_data option"
  csv_file :: "csv_line list option"
  sent :: "request list"

definition pool_id :: string where
  "pool_id = ''0xd63c125b169bc5655f9fdefb47c7d33e622416c7''"

text \<open>
  \<open>+\<close>, \<open>/\<close> and \<open>round\<close> on results of \<open>normalize_value\<close>: \<open>TypeError\<close> when an
  operand is \<open>None\<close>.
\<close>

definition py_add :: "pyfloat option \<Rightarrow> pyfloat option \<Rightarrow> exn + pyfloat" where
  "py_add x y = (case (x, y) of (Some a, Some b) \<Rightarrow> Inr (fadd a b) | _ \<Rightarrow> Inl TypeError)"

definition py_truediv :: "pyfloat option \<Rightarrow> pyfloat option \<Rightarrow> exn + pyfloat" where
  "py_truediv x y = (case (x, y) of (Some a, Some b) \<Rightarrow> float_truediv a b | _ \<Rightarrow> Inl TypeError)"

definition py_round_opt :: "pyfloat option \<Rightarrow> nat \<Rightarrow> exn + pyfloat" where
  "py_round_opt x ndigits = (case x of Some a \<Rightarrow> py_round a ndigits | None \<Rightarrow> Inl TypeError)"

text \<open>
  Lines 113 to 118: the two token decimals are converted and not used; the four fields
  are normalized, with 12, 12, 6 and 12 decimals.
\<close>

definition read_pool_data ::
    "json \<Rightarrow> exn + pyfloat option \<times> pyfloat option \<times> pyfloat option \<times> pyfloat option" where
  "read_pool_data pool_data =
     bind_exn (py_getitem pool_data ''token0'') (\<lambda>t0.
     bind_exn (py_getitem t0 ''decimals'') (\<lambda>d0.
     bind_exn (py_int d0) (\<lambda>token0_decimals.
     bind_exn (py_getitem pool_data ''token1'') (\<lambda>t1.
     bind_exn (py_getitem t1 ''decimals'') (\<lambda>d1.
     bind_exn (py_int d1) (\<lambda>token1_decimals.
     bind_exn (py_getitem pool_data ''lpInvariant'') (\<lambda>v1.
     bind_exn (normalize_value v1 12) (\<lambda>lp_invariant.
     bind_exn (py_getitem pool_data ''lpBorrowedInvariant'') (\<lambda>v2.
     bind_exn (normalize_value v2 12) (\<lambda>lp_borrowed_invariant.
     bind_exn (py_getitem pool_data ''lastPrice'') (\<lambda>v3.
     bind_exn (normalize_value v3 6) (\<lambda>last_price.
     bind_exn (py_getitem pool_data ''totalSupply'') (\<lambda>v4.
     bind_exn (normalize_value v4 12) (\<lambda>total_supply.
       Inr (lp_invariant, lp_borrowed_invariant, last_price, total_supply)))))))))))))))"

text \<open>
  Lines 120 to 125:
  \<^verbatim>\<open>
  if pool_creation_data is None:
      pool_creation_data = {
          "totalInvariant": lp_invariant + lp_borrowed_invariant,
          "totalSupply": total_supply,
          "lastPrice": last_price,
      }
  \<close>
\<close>

definition capture_creation_data ::
    "creation_data option \<Rightarrow> pyfloat option \<Rightarrow> pyfloat option \<Rightarrow> pyfloat option
       \<Rightarrow> pyfloat option \<Rightarrow> exn + creation_data option" where
  "capture_creation_data pcd lp_invariant lp_borrowed_invariant last_price total_supply =
     (case pcd of
        None \<Rightarrow>
          bind_exn (py_add lp_invariant lp_borrowed_invariant) (\<lambda>ti.
            Inr (Some \<lparr>pcd_totalInvariant = ti, pcd_totalSupply = total_supply,
                       pcd_lastPrice = last_price\<rparr>))
      | Some d \<Rightarrow> Inr (Some d))"

text \<open>
  Lines 136 to 140:
  \<^verbatim>\<open>
  total_lp_return_percent = (
      ((total_invariant / pool_creation_data["totalInvariant"]) /
       (total_supply / pool_creation_data["totalSupply"])) *
      math.sqrt(last_price / pool_creation_data["lastPrice"])
  ) - 1
  \<close>
\<close>

definition lp_return ::
    "pyfloat \<Rightarrow> pyfloat option \<Rightarrow> pyfloat option \<Rightarrow> creation_data \<Rightarrow> exn + pyfloat" where
  "lp_return total_invariant total_supply last_price pcd =
     bind_exn (float_truediv total_invariant (pcd_totalInvariant pcd)) (\<lambda>a.
     bind_exn (py_truediv total_supply (pcd_totalSupply pcd)) (\<lambda>b.
     bind_exn (float_truediv a b) (\<lambda>c.
     bind_exn (py_truediv last_price (pcd_lastPrice pcd)) (\<lambda>d.
     bind_exn (math_sqrt d) (\<lambda>e.
       Inr (fsub (fmul c e) (Fin 1)))))))"

text \<open>
  Line 144:
  \<^verbatim>\<open>
  spot_return_percent = (((last_price / pool_creation_data["lastPrice"]) * 0.5 + 0.5) / 1) - 1
  \<close>
\<close>

definition spot_return :: "pyfloat option \<Rightarrow> creation_data \<Rightarrow> exn + pyfloat" where
  "spot_return last_price pcd =
     bind_exn (py_truediv last_price (pcd_lastPrice pcd)) (\<lambda>d.
     bind_exn (float_truediv_int (fadd (fmul d (Fin (1 / 2))) (Fin (1 / 2))) 1) (\<lambda>z.
       Inr (fsub z (Fin 1))))"

text \<open>
  \<open>if pool_creation_data:\<close> guards both metrics (lines 134, 135 and 142, 143); a dict
  with three keys is true, so the guard fails only for \<open>None\<close>.
\<close>

definition guarded :: "creation_data option \<Rightarrow> (creation_data \<Rightarrow> exn + pyfloat)
    \<Rightarrow> exn + pyfloat option" where
  "guarded pcd f =
     (case pcd of None \<Rightarrow> Inr None | Some d \<Rightarrow> bind_exn (f d) (\<lambda>r. Inr (Some r)))"

text \<open>\<open>round(x, 6) if x is not None else None\<close>.\<close>

definition round_if_not_none :: "pyfloat option \<Rightarrow> exn + pyfloat option" where
  "round_if_not_none x =
     (case x of None \<Rightarrow> Inr None | Some a \<Rightarrow> bind_exn (py_round a 6) (\<lambda>r. Inr (Some r)))"

text \<open>Lines 146 to 156: the time stamp of the cursor and the row, every number rounded.\<close>

definition make_row ::
    "int \<Rightarrow> json \<Rightarrow> pyfloat \<Rightarrow> pyfloat option \<Rightarrow> pyfloat option \<Rightarrow> pyfloat option
       \<Rightarrow> pyfloat option \<Rightarrow> exn + csv_row" where
  "make_row timestamp block_number total_invariant total_supply last_price
       total_lp_return_percent spot_return_percent =
     bind_exn (utc_string timestamp) (\<lambda>utc_timestamp.
     bind_exn (py_round total_invariant 6) (\<lambda>r1.
     bind_exn (py_round_opt total_supply 6) (\<lambda>r2.
     bind_exn (py_round_opt last_price 6) (\<lambda>r3.
     bind_exn (round_if_not_none total_lp_return_percent) (\<lambda>r4.
     bind_exn (round_if_not_none spot_return_percent) (\<lambda>r5.
       Inr \<lparr>utcTimestamp = utc_timestamp, blockNumber = block_number, totalInvariant = r1,
            totalSupply = r2, lastPrice = r3, totalLPReturnPercent = r4,
            spotReturnPercent = r5\<rparr>))))))"

text \<open>
  Lines 109 to 161, the branch \<open>if pool_data:\<close> of the loop: normalize, capture the
  baseline if there is none, compute the two metrics, write the row, advance the cursor.
\<close>

definition process_pool_data :: "state \<Rightarrow> json \<Rightarrow> json \<Rightarrow> exn + state" where
  "process_pool_data s block_number pool_data =
     bind_exn (read_pool_data pool_data)
       (\<lambda>(lp_invariant, lp_borrowed_invariant, last_price, total_supply).
     bind_exn (capture_creation_data (pool_creation_data s) lp_invariant lp_borrowed_invariant
                 last_price total_supply) (\<lambda>pcd.
     bind_exn (py_add lp_invariant lp_borrowed_invariant) (\<lambda>total_invariant.
     bind_exn (guarded pcd (lp_return total_invariant total_supply last_price))
       (\<lambda>total_lp_return_percent.
     bind_exn (guarded pcd (spot_return last_price)) (\<lambda>spot_return_percent.
     bind_exn (make_row (current_timestamp s) block_number total_invariant total_supply
                 last_price total_lp_return_percent spot_return_percent) (\<lambda>row.
       Inr (s\<lparr>current_timestamp := current_timestamp s + 7 * 86400,
               pool_creation_data := pcd,
               csv_file := save_to_csv row (csv_file s)\<rparr>)))))))"

text \<open>
  Lines 101 to 165, one iteration of the loop:
  \<^verbatim>\<open>
  block_number = get_block_from_timestamp(current_timestamp, block_subgraph_url)
  if not block_number:
      current_timestamp += 7 * 86400  # Increment by 1 week
      continue
  pool_data = query_pool_at_block(arb_subgraph_url, pool_id, block_number)
  if pool_data:
      ...
      current_timestamp += 7 * 86400
  else:
      current_timestamp += 7 * 86400
  \<close>
  An exception ends the run, since nothing in \<open>main\<close> catches one. The lines that
  \<open>main\<close> and the two query functions print are not modelled.
\<close>

definition loop_body :: "network \<Rightarrow> state \<Rightarrow> exn + state" where
  "loop_body net s =
     bind_exn (get_block_from_timestamp (current_timestamp s) net (sent s))
       (\<lambda>(block_number, sent1).
       if \<not> py_truthy block_number then
         Inr (s\<lparr>current_timestamp := current_timestamp s + 7 * 86400, sent := sent1\<rparr>)
       else
         bind_exn (query_pool_at_block net pool_id block_number sent1) (\<lambda>(pool_data, sent2).
           if py_truthy pool_data then
             process_pool_data (s\<lparr>sent := sent2\<rparr>) block_number pool_data
           else
             Inr (s\<lparr>current_timestamp := current_timestamp s + 7 * 86400, sent := sent2\<rparr>)))"

text \<open>
  Lines 100 to 165, the loop:
  \<^verbatim>\<open>
  while current_timestamp <= today_timestamp:
      ...
  \<close>
  The loop ends when the cursor has passed the bound, or when an iteration raises. It
  terminates because every iteration that completes moves the cursor forward by a week.
\<close>

function main_loop :: "network \<Rightarrow> int \<Rightarrow> state \<Rightarrow> exn + state" where
  "main_loop net today_timestamp s =
     (if current_timestamp s \<le> today_timestamp
      then (case loop_body net s of
              Inl e \<Rightarrow> Inl e
            | Inr s' \<Rightarrow> main_loop net today_timestamp s')
      else Inr s)"
  by pat_completeness auto
termination
proof (relation "measure (\<lambda>(net, today_timestamp, s). nat (today_timestamp + 1 - current_timestamp s))")
  show "wf (measure (\<lambda>(net, today_timestamp, s). nat (today_timestamp + 1 - current_timestamp s)))"
    by simp
next
  fix net :: network and today_timestamp :: int and s x :: state
  assume le: "current_timestamp s \<le> today_timestamp" and step: "loop_body net s = Inr x"
  have iff: "(bind_exn m f = Inr y) = (\<exists>x. m = Inr x \<and> f x = Inr y)"
    for m :: "exn + 'a" and f :: "'a \<Rightarrow> exn + 'b" and y
    by (cases m) auto
  from step have "current_timestamp x = current_timestamp s + 604800"
    by (auto simp: loop_body_def process_pool_data_def iff split: if_splits)
  with le show "((net, today_timestamp, x), (net, today_timestamp, s))
      \<in> measure (\<lambda>(net, today_timestamp, s). nat (today_timestamp + 1 - current_timestamp s))"
    by simp
qed

declare main_loop.simps [simp del]

text \<open>
  \<^verbatim>\<open>
  start_timestamp = int(datetime(2024, 3, 29, 5, 32, 46).timestamp())
  current_timestamp = start_timestamp
  today_timestamp = int(datetime.utcnow().replace(hour=0, minute=0, second=0, microsecond=0).timestamp())
  pool_creation_data = None
  \<close>
  Both time stamps depend on the clock and the time zone of the machine, and are
  parameters here, as is the output file found at the start. Both are computed once,
  before the loop.
\<close>

definition main :: "network \<Rightarrow> int \<Rightarrow> int \<Rightarrow> csv_line list option \<Rightarrow> exn + state" where
  "main net start_timestamp today_timestamp file =
     main_loop net today_timestamp
       \<lparr>current_timestamp = start_timestamp, pool_creation_data = None, csv_file = file,
        sent = []\<rparr>"

subsection \<open>Counting iterations\<close>

text \<open>\<open>iterate_body n\<close> runs the body of the loop \<open>n\<close> times, stopping at an exception.\<close>

fun iterate_body :: "nat \<Rightarrow> network \<Rightarrow> state \<Rightarrow> exn + state" where
  "iterate_body 0 net s = Inr s"
| "iterate_body (Suc n) net s =
     (case loop_body net s of Inl e \<Rightarrow> Inl e | Inr s' \<Rightarrow> iterate_body n net s')"

text \<open>The number of cursor values from the cursor of \<open>s\<close> up to the bound, a week apart.\<close>

definition iterations :: "int \<Rightarrow> state \<Rightarrow> nat" where
  "iterations today_timestamp s =
     (if current_timestamp s \<le> today_timestamp
      then nat ((today_timestamp - current_timestamp s) div 604800) + 1 else 0)"

section \<open>Notions used to state the properties\<close>

text \<open>
  \<open>fetched net s\<close> is what lines 101 to 108 obtain in the iteration that starts in
  state \<open>s\<close>: the block number, the pool data and the requests sent, when both are
  obtained and true, and \<open>None\<close> when the iteration skips or raises before line 109.
\<close>

definition fetched :: "network \<Rightarrow> state \<Rightarrow> (json \<times> json \<times> request list) option" where
  "fetched net s =
     (case get_block_from_timestamp (current_timestamp s) net (sent s) of
        Inl e \<Rightarrow> None
      | Inr (block_number, sent1) \<Rightarrow>
          if \<not> py_truthy block_number then None
          else (case query_pool_at_block net pool_id block_number sent1 of
                  Inl e \<Rightarrow> None
                | Inr (pool_data, sent2) \<Rightarrow>
                    if py_truthy pool_data then Some (block_number, pool_data, sent2)
                    else None))"

text \<open>
  The two formulas of the specification, read with the arithmetic of floats:
  \<open>((totalInvariant / baseline.totalInvariant) / (totalSupply / baseline.totalSupply))
  * sqrt(lastPrice / baseline.lastPrice) - 1\<close> and
  \<open>((lastPrice / baseline.lastPrice) * 0.5 + 0.5) - 1\<close>.
\<close>

definition spec_lp_return ::
    "pyfloat \<Rightarrow> pyfloat \<Rightarrow> pyfloat \<Rightarrow> pyfloat \<Rightarrow> pyfloat \<Rightarrow> pyfloat \<Rightarrow> pyfloat" where
  "spec_lp_return total_invariant total_supply last_price
       base_invariant base_supply base_price =
     fsub (fmul (fdiv (fdiv total_invariant base_invariant) (fdiv total_supply base_supply))
                (fsqrt (fdiv last_price base_price)))
          (Fin 1)"

definition spec_spot_return :: "pyfloat \<Rightarrow> pyfloat \<Rightarrow> pyfloat" where
  "spec_spot_return last_price base_price =
     fsub (fadd (fmul (fdiv last_price base_price) (Fin (1 / 2))) (Fin (1 / 2))) (Fin 1)"




text \<open>
  \<open>all_skipped k net s\<close>: each of the \<open>k\<close> iterations from \<open>s\<close> on completes
  without having obtained both a block and pool data, that is, each is a failed step.
\<close>

fun all_skipped :: "nat \<Rightarrow> network \<Rightarrow> state \<Rightarrow> bool" where
  "all_skipped 0 net s = True"
| "all_skipped (Suc k) net s =
     (fetched net s = None
      \<and> (case loop_body net s of Inl e \<Rightarrow> False | Inr s' \<Rightarrow> all_skipped k net s'))"

text \<open>
  \<open>x * n\<close> for a float and an \<open>int\<close>, as in \<open>normalize(v, d) * 10 ** d\<close>: the
  \<open>int\<close> is converted first.
\<close>

definition float_mul_int :: "pyfloat \<Rightarrow> int \<Rightarrow> exn + pyfloat" where
  "float_mul_int x n = bind_exn (float_of_int n) (\<lambda>y. Inr (fmul x y))"

text \<open>
  A fixed-point input: an integer, given as a JSON integer or as a string of decimal
  digits, and the integer it denotes.
\<close>

definition fixed_point :: "json \<Rightarrow> int option" where
  "fixed_point value =
     (case value of
        JInt n \<Rightarrow> Some n
      | JStr s \<Rightarrow> if s \<noteq> [] \<and> list_all is_digit s then Some (decimal s) else None
      | _ \<Rightarrow> None)"

section \<open>Example runs\<close>

text \<open>
  Networks and states on which the theorems below are tried. A scripted network answers
  the \<open>i\<close>-th request of a run with the \<open>i\<close>-th response of its script, whatever
  the request; the script alternates between the block index and the pool index as the
  loop does. Numbers are given as JSON integers.
\<close>

definition reply :: "json \<Rightarrow> response" where
  "reply d = \<lparr>status_code = 200, body = Some d\<rparr>"

definition block_reply :: "json \<Rightarrow> response" where
  "block_reply number =
     reply (JObj [(''data'', JObj [(''blocks'',
       JArr [JObj [(''number'', number), (''timestamp'', JStr ''1711690367'')]])])])"

definition pool_record :: "json \<Rightarrow> json \<Rightarrow> json \<Rightarrow> json \<Rightarrow> json" where
  "pool_record lp lpb price supply =
     JObj [(''id'', JStr pool_id), (''lpInvariant'', lp), (''lpBorrowedInvariant'', lpb),
           (''lastPrice'', price), (''totalSupply'', supply),
           (''token0'', JObj [(''decimals'', JInt 18)]),
           (''token1'', JObj [(''decimals'', JInt 6)])]"

definition pool_reply :: "json \<Rightarrow> response" where
  "pool_reply pool = reply (JObj [(''data'', JObj [(''gammaPool'', pool)])])"

definition scripted :: "(nat \<Rightarrow> response) \<Rightarrow> network" where
  "scripted script hist req = Inr (script (length hist))"

definition start_state :: state where
  "start_state =
     \<lparr>current_timestamp = 1711690366, pool_creation_data = None, csv_file = None, sent = []\<rparr>"

text \<open>A pool record whose \<open>lpInvariant\<close> is \<open>null\<close>.\<close>

definition null_invariant_pool :: json where
  "null_invariant_pool = pool_record JNull (JInt 0) (JInt 1000000) (JInt 10000000000000)"

definition null_invariant_script :: "nat \<Rightarrow> response" where
  "null_invariant_script i =
     (if even i then block_reply (JInt 100) else pool_reply null_invariant_pool)"

text \<open>A block index that answers every request with block number 0.\<close>

definition zero_block_script :: "nat \<Rightarrow> response" where
  "zero_block_script i = block_reply (JInt 0)"

text \<open>
  A run of two weeks: the cursor starts at 2024-03-29 05:32:46 UTC; the pool has a total
  invariant of 2097152 in the first week and of 2097153 in the second, a supply of 10 and
  a price of 1 in both. The states after the two iterations and the two rows written are
  named, to be compared with what the loop computes.
\<close>

definition first_pool :: json where
  "first_pool =
     pool_record (JInt 2097152000000000000) (JInt 0) (JInt 1000000) (JInt 10000000000000)"

definition second_pool :: json where
  "second_pool =
     pool_record (JInt 2097153000000000000) (JInt 0) (JInt 1000000) (JInt 10000000000000)"

definition two_week_script :: "nat \<Rightarrow> response" where
  "two_week_script i =
     (if i = 0 then block_reply (JInt 100)
      else if i = 1 then pool_reply first_pool
      else if i = 2 then block_reply (JInt 200)
      else pool_reply second_pool)"

definition first_baseline :: creation_data where
  "first_baseline =
     \<lparr>pcd_totalInvariant = Fin 2097152, pcd_totalSupply = Some (Fin 10),
      pcd_lastPrice = Some (Fin 1)\<rparr>"

definition first_row :: csv_row where
  "first_row =
     \<lparr>utcTimestamp = ''2024-03-29 05:32:46'', blockNumber = JInt 100,
      totalInvariant = Fin 2097152, totalSupply = Fin 10, lastPrice = Fin 1,
      totalLPReturnPercent = Some (Fin 0), spotReturnPercent = Some (Fin 0)\<rparr>"

definition second_row :: csv_row where
  "second_row =
     \<lparr>utcTimestamp = ''2024-04-05 05:32:46'', blockNumber = JInt 200,
      totalInvariant = Fin 2097153, totalSupply = Fin 10, lastPrice = Fin 1,
      totalLPReturnPercent = Some (Fin 0), spotReturnPercent = Some (Fin 0)\<rparr>"

definition after_first :: state where
  "after_first =
     \<lparr>current_timestamp = 1712295166, pool_creation_data = Some first_baseline,
      csv_file = Some [Header fieldnames, Row first_row],
      sent = [BlockQuery 1711690366, PoolQuery pool_id (JInt 100)]\<rparr>"

definition after_second :: state where
  "after_second =
     \<lparr>current_timestamp = 1712899966, pool_creation_data = Some first_baseline,
      csv_file = Some [Header fieldnames, Row first_row, Row second_row],
      sent = [BlockQuery 1711690366, PoolQuery pool_id (JInt 100),
              BlockQuery 1712295166, PoolQuery pool_id (JInt 200)]\<rparr>"

text \<open>
  The same two weeks, the run starting a week earlier with a block index that answers
  the first request with status 500.
\<close>

definition late_script :: "nat \<Rightarrow> response" where
  "late_script i =
     (if i = 0 then \<lparr>status_code = 500, body = None\<rparr> else two_week_script (i - 1))"

definition early_state :: state where
  "early_state =
     \<lparr>current_timestamp = 1711085566, pool_creation_data = None, csv_file = None, sent = []\<rparr>"

definition late_start :: state where
  "late_start =
     \<lparr>current_timestamp = 1711690366, pool_creation_data = None, csv_file = None,
      sent = [BlockQuery 1711085566]\<rparr>"

definition late_first :: state where
  "late_first =
     \<lparr>current_timestamp = 1712295166, pool_creation_data = Some first_baseline,
      csv_file = Some [Header fieldnames, Row first_row],
      sent = [BlockQuery 1711085566, BlockQuery 1711690366, PoolQuery pool_id (JInt 100)]\<rparr>"

definition late_second :: state where
  "late_second =
     \<lparr>current_timestamp = 1712899966, pool_creation_data = Some first_baseline,
      csv_file = Some [Header fieldnames, Row first_row, Row second_row],
      sent = [BlockQuery 1711085566, BlockQuery 1711690366, PoolQuery pool_id (JInt 100),
              BlockQuery 1712295166, PoolQuery pool_id (JInt 200)]\<rparr>"



section \<open>Properties of the model\<close>

subsection \<open>Exceptions\<close>

lemma bind_exn_Inr_iff: "bind_exn m f = Inr y \<longleftrightarrow> (\<exists>x. m = Inr x \<and> f x = Inr y)"
  by (cases m) auto

subsection \<open>Rounding to binary64\<close>

lemma round_half_even_of_int: "round_half_even (of_int k) = k"
  by (simp add: round_half_even_def)

lemma binade_lower:
  assumes "q \<noteq> 0"
  shows "2 powi (binade q) \<le> \<bar>q\<bar>"
proof -
  obtain a b where ab: "quotient_of q = (a, b)" by (cases "quotient_of q")
  then have b: "0 < b" and q: "q = of_int a / of_int b"
    using quotient_of_denom_pos quotient_of_div by blast+
  from assms q have a: "0 < \<bar>a\<bar>" by auto
  define d where "d = bitlen \<bar>a\<bar> - bitlen b"
  show ?thesis
  proof (cases "2 powi d \<le> \<bar>q\<bar>")
    case True
    then show ?thesis by (simp add: binade_def ab d_def)
  next
    case False
    then have bd: "binade q = d - 1" by (simp add: binade_def ab d_def)
    have la: "1 \<le> bitlen \<bar>a\<bar>" and lb: "1 \<le> bitlen b"
      using a b by (auto simp: bitlen_alt_def)
    have 1: "(2::rat) powi (bitlen \<bar>a\<bar> - 1) \<le> of_int \<bar>a\<bar>"
    proof -
      have "(2::int) ^ nat (bitlen \<bar>a\<bar> - 1) \<le> \<bar>a\<bar>" using bitlen_bounds [OF a] by simp
      then have "(of_int ((2::int) ^ nat (bitlen \<bar>a\<bar> - 1)) :: rat) \<le> of_int \<bar>a\<bar>"
        by (simp only: of_int_le_iff)
      then show ?thesis using la by (simp add: power_int_def)
    qed
    have 2: "(of_int b :: rat) \<le> 2 powi (bitlen b)"
    proof -
      have "b < (2::int) ^ nat (bitlen b)" using bitlen_bounds [OF b] by simp
      then have "(of_int b :: rat) < of_int ((2::int) ^ nat (bitlen b))"
        by (simp only: of_int_less_iff)
      then show ?thesis using lb by (simp add: power_int_def)
    qed
    have "(2::rat) powi (d - 1) = 2 powi (bitlen \<bar>a\<bar> - 1) / 2 powi (bitlen b)"
      by (simp add: d_def power_int_diff)
    also have "\<dots> \<le> of_int \<bar>a\<bar> / 2 powi (bitlen b)"
      using 1 by (simp add: divide_right_mono)
    also have "\<dots> \<le> of_int \<bar>a\<bar> / of_int b"
      using 2 b by (intro divide_left_mono) auto
    also have "\<dots> = \<bar>q\<bar>" using b by (simp add: q)
    finally show ?thesis by (simp add: bd)
  qed
qed

lemma to_double_exact:
  assumes q: "q = of_int m * 2 powi e"
    and m: "\<bar>m\<bar> < 2 ^ 53" and e: "- 1074 \<le> e" and e': "e \<le> 971"
  shows "to_double q = Fin q"
proof (cases "q = 0")
  case True
  then show ?thesis by (simp add: to_double_def)
next
  case False
  define ue where "ue = max (binade q - 52) (- 1074)"
  have "\<bar>q\<bar> = of_int \<bar>m\<bar> * 2 powi e" by (simp add: q abs_mult)
  also have "\<dots> < 2 ^ 53 * 2 powi e"
  proof -
    have "(of_int \<bar>m\<bar> :: rat) < of_int (2 ^ 53)" using m by (simp only: of_int_less_iff)
    then show ?thesis by (simp add: mult_strict_right_mono)
  qed
  also have "\<dots> = 2 powi (53 + e)" by (simp add: power_int_add)
  finally have qlt: "\<bar>q\<bar> < 2 powi (53 + e)" .
  have "(2::rat) powi (53 + e) \<le> 2 powi 1024"
    using e' by (intro power_int_increasing) auto
  with qlt have bound: "\<bar>q\<bar> < 2 ^ 1024" by (simp add: power_int_def)
  have "(2::rat) powi (binade q) \<le> \<bar>q\<bar>" by (rule binade_lower [OF False])
  then have "(2::rat) powi (binade q) < 2 powi (53 + e)" using qlt by (rule le_less_trans)
  then have "binade q < 53 + e"
    using power_int_increasing [of "53 + e" "binade q" "2::rat"] by (cases "binade q < 53 + e") auto
  with e have ue: "ue \<le> e" by (simp add: ue_def)
  define k where "k = m * 2 ^ nat (e - ue)"
  have "q / 2 powi ue = of_int m * 2 powi (e - ue)" by (simp add: q power_int_diff)
  also have "(2::rat) powi (e - ue) = 2 ^ nat (e - ue)" using ue by (simp add: power_int_def)
  finally have qu: "q / 2 powi ue = of_int k" by (simp add: k_def)
  have "of_int (round_half_even (q / 2 powi ue)) * 2 powi ue = q / 2 powi ue * 2 powi ue"
    by (simp only: qu round_half_even_of_int)
  also have "\<dots> = q" by simp
  finally have r: "of_int (round_half_even (q / 2 powi ue)) * 2 powi ue = q" .
  have "to_double q =
     (let u = 2 powi ue; r = of_int (round_half_even (q / u)) * u
      in if 2 ^ 1024 \<le> \<bar>r\<bar> then (if 0 < q then PInf else NInf) else Fin r)"
    by (simp only: to_double_def ue_def False if_False)
  also have "\<dots> = Fin q"
    using bound by (simp only: Let_def r not_le [symmetric] if_False)
  finally show ?thesis .
qed


lemma to_double_numeral:
  assumes "(numeral k :: int) < 2 ^ 53"
  shows "to_double (numeral k) = Fin (numeral k)"
proof -
  have "to_double (of_int (numeral k) * 2 powi 0) = Fin (of_int (numeral k) * 2 powi 0)"
    using assms by (intro to_double_exact [OF refl]) simp_all
  then show ?thesis by simp
qed

lemma to_double_1: "to_double 1 = Fin 1"
  using to_double_exact [of 1 1 0] by simp

lemma binade_upper:
  assumes "q \<noteq> 0"
  shows "\<bar>q\<bar> < 2 powi (binade q + 1)"
proof -
  obtain a b where ab: "quotient_of q = (a, b)" by (cases "quotient_of q")
  then have b: "0 < b" and q: "q = of_int a / of_int b"
    using quotient_of_denom_pos quotient_of_div by blast+
  from assms q have a: "0 < \<bar>a\<bar>" by auto
  define d where "d = bitlen \<bar>a\<bar> - bitlen b"
  show ?thesis
  proof (cases "2 powi d \<le> \<bar>q\<bar>")
    case False
    then show ?thesis by (simp add: binade_def ab d_def)
  next
    case True
    then have bd: "binade q = d" by (simp add: binade_def ab d_def)
    have la: "1 \<le> bitlen \<bar>a\<bar>" and lb: "1 \<le> bitlen b"
      using a b by (auto simp: bitlen_alt_def)
    have 1: "(of_int \<bar>a\<bar> :: rat) < 2 powi (bitlen \<bar>a\<bar>)"
    proof -
      have "\<bar>a\<bar> < (2::int) ^ nat (bitlen \<bar>a\<bar>)" using bitlen_bounds [OF a] by simp
      then have "(of_int \<bar>a\<bar> :: rat) < of_int ((2::int) ^ nat (bitlen \<bar>a\<bar>))"
        by (simp only: of_int_less_iff)
      then show ?thesis using la by (simp add: power_int_def)
    qed
    have 2: "(2::rat) powi (bitlen b - 1) \<le> of_int b"
    proof -
      have "(2::int) ^ nat (bitlen b - 1) \<le> b" using bitlen_bounds [OF b] by simp
      then have "(of_int ((2::int) ^ nat (bitlen b - 1)) :: rat) \<le> of_int b"
        by (simp only: of_int_le_iff)
      then show ?thesis using lb by (simp add: power_int_def)
    qed
    have "\<bar>q\<bar> = of_int \<bar>a\<bar> / of_int b" using b by (simp add: q)
    also have "\<dots> < 2 powi (bitlen \<bar>a\<bar>) / of_int b"
      using 1 b by (simp add: divide_strict_right_mono)
    also have "\<dots> \<le> 2 powi (bitlen \<bar>a\<bar>) / 2 powi (bitlen b - 1)"
      using 2 b by (intro divide_left_mono) (auto intro!: mult_pos_pos)
    also have "\<dots> = 2 powi (d + 1)"
    proof -
      have e: "d + 1 = bitlen \<bar>a\<bar> - (bitlen b - 1)" by (simp add: d_def)
      show ?thesis unfolding e by (rule power_int_diff [symmetric]) simp
    qed
    finally show ?thesis by (simp add: bd)
  qed
qed


lemma round_half_even_ge:
  assumes "of_int n \<le> x"
  shows "n \<le> round_half_even x"
proof -
  have "n \<le> \<lfloor>x\<rfloor>" using assms by (simp add: le_floor_iff)
  then show ?thesis by (auto simp: round_half_even_def Let_def)
qed

lemma to_double_overflow:
  assumes "2 ^ 1024 \<le> q"
  shows "to_double q = PInf"
proof -
  have pos: "0 < q" using assms by (rule less_le_trans [rotated]) simp
  then have nz: "q \<noteq> 0" by simp
  define b where "b = binade q"
  have "(2::rat) powi 1024 \<le> \<bar>q\<bar>" using assms pos by simp
  also have "\<dots> < 2 powi (b + 1)" unfolding b_def by (rule binade_upper [OF nz])
  finally have b: "1024 \<le> b"
    using power_int_increasing [of "b + 1" 1024 "2::rat"] by (cases "1024 \<le> b") auto
  then have ue: "max (b - 52) (- 1074) = b - 52" by simp
  define u :: rat where "u = 2 powi (b - 52)"
  have u: "0 < u" by (simp add: u_def)
  have "(2::rat) powi b \<le> q" using binade_lower [OF nz] pos by (simp add: b_def)
  then have "2 powi b / u \<le> q / u" using u by (simp add: divide_right_mono)
  moreover have "(2::rat) powi b / u = of_int (2 ^ 52)"
  proof -
    have "(2::rat) powi (b - (b - 52)) = 2 powi b / 2 powi (b - 52)"
      by (rule power_int_diff) simp
    then show ?thesis by (simp add: u_def)
  qed
  ultimately have "2 ^ 52 \<le> round_half_even (q / u)"
    by (intro round_half_even_ge) simp
  then have "(of_int (2 ^ 52) :: rat) \<le> of_int (round_half_even (q / u))"
    by (simp only: of_int_le_iff)
  then have "of_int (2 ^ 52) * u \<le> of_int (round_half_even (q / u)) * u"
    using u by (simp only: mult_le_cancel_right_pos)
  moreover have "of_int (2 ^ 52) * u = 2 powi b"
  proof -
    have "(2::rat) powi (52 + (b - 52)) = 2 powi 52 * 2 powi (b - 52)"
      by (rule power_int_add) simp
    then show ?thesis by (simp add: u_def)
  qed
  moreover have "(2::rat) powi 1024 \<le> 2 powi b"
    using b by (intro power_int_increasing) auto
  ultimately have r: "2 ^ 1024 \<le> \<bar>of_int (round_half_even (q / u)) * u\<bar>"
    by simp
  have "to_double q =
     (let u = 2 powi (b - 52); r = of_int (round_half_even (q / u)) * u
      in if 2 ^ 1024 \<le> \<bar>r\<bar> then (if 0 < q then PInf else NInf) else Fin r)"
    by (simp only: to_double_def b_def [symmetric] ue nz if_False)
  also have "\<dots> = PInf"
    using r pos by (simp only: Let_def u_def [symmetric] if_True)
  finally show ?thesis .
qed

lemma isqrt_correct: "isqrt n * isqrt n \<le> n \<and> n < (isqrt n + 1) * (isqrt n + 1)"
proof (induction n rule: isqrt.induct)
  case (1 n)
  show ?case
  proof (cases "n < 2")
    case True
    then have "isqrt n = n" by (subst isqrt.simps) simp
    with True show ?thesis by auto
  next
    case False
    define r where "r = 2 * isqrt (n div 4)"
    define m where "m = isqrt (n div 4)"
    from 1 [OF False] have ih: "m * m \<le> n div 4" "n div 4 < (m + 1) * (m + 1)"
      by (simp_all add: m_def)
    have eq: "isqrt n = (if (2 * m + 1) * (2 * m + 1) \<le> n then 2 * m + 1 else 2 * m)"
      using False by (subst isqrt.simps) (simp add: Let_def m_def)
    from ih have lo: "4 * (m * m) \<le> n" by linarith
    from ih have "n div 4 + 1 \<le> (m + 1) * (m + 1)" by linarith
    then have hi: "n < 4 * ((m + 1) * (m + 1))" by linarith
    show ?thesis
    proof (cases "(2 * m + 1) * (2 * m + 1) \<le> n")
      case True
      then show ?thesis using hi by (simp add: eq algebra_simps)
    next
      case False
      then show ?thesis using lo by (simp add: eq algebra_simps)
    qed
  qed
qed

lemma isqrt_square: "isqrt (m * m) = m"
proof -
  let ?s = "isqrt (m * m)"
  have 1: "?s * ?s \<le> m * m" and 2: "m * m < (?s + 1) * (?s + 1)"
    using isqrt_correct [of "m * m"] by auto
  have "?s \<le> m"
  proof (rule ccontr)
    assume "\<not> ?s \<le> m"
    then have "m + 1 \<le> ?s" by arith
    then have "(m + 1) * (m + 1) \<le> ?s * ?s" by (simp only: mult_le_mono)
    with 1 show False by simp
  qed
  moreover have "m < ?s + 1"
  proof (rule ccontr)
    assume "\<not> m < ?s + 1"
    then have "?s + 1 \<le> m" by arith
    then have "(?s + 1) * (?s + 1) \<le> m * m" by (simp only: mult_le_mono)
    with 2 show False by simp
  qed
  ultimately show ?thesis by simp
qed

subsection \<open>Evaluation at numerals\<close>

lemma to_double_0: "to_double 0 = Fin 0"
  by (simp add: to_double_def)

lemma float_of_int_0: "float_of_int 0 = Inr (Fin 0)"
  by (simp add: float_of_int_def to_double_def)

lemma float_of_int_numeral:
  "(numeral k :: int) < 2 ^ 53 \<Longrightarrow> float_of_int (numeral k) = Inr (Fin (numeral k))"
  by (simp add: float_of_int_def to_double_numeral)

lemmas normalize_eval =
  normalize_value_def float_truediv_int_def float_truediv_def float_of_int_numeral
  float_of_int_0 to_double_numeral to_double_1 to_double_0

lemmas network_eval =
  post_def scripted_def block_reply_def pool_reply_def reply_def response_json_def

subsection \<open>The metrics and one iteration\<close>

lemma py_add_Inr: "py_add x y = Inr z \<longleftrightarrow> (\<exists>a b. x = Some a \<and> y = Some b \<and> z = fadd a b)"
  by (auto simp: py_add_def split: option.splits)

lemma py_truediv_Inr:
  "py_truediv x y = Inr z \<longleftrightarrow> (\<exists>a b. x = Some a \<and> y = Some b \<and> b \<noteq> Fin 0 \<and> z = fdiv a b)"
  by (auto simp: py_truediv_def float_truediv_def split: option.splits)

lemma float_truediv_Inr: "float_truediv x y = Inr z \<longleftrightarrow> y \<noteq> Fin 0 \<and> z = fdiv x y"
  by (auto simp: float_truediv_def)

lemma math_sqrt_Inr: "math_sqrt x = Inr z \<Longrightarrow> z = fsqrt x"
  by (auto simp: math_sqrt_def split: pyfloat.splits if_splits)

lemma guarded_Some_Inr: "guarded (Some d) f = Inr r \<longleftrightarrow> (\<exists>m. f d = Inr m \<and> r = Some m)"
  by (auto simp: guarded_def bind_exn_Inr_iff)

lemma lp_return_Inr:
  assumes "lp_return ti ts p b = Inr m"
  shows "\<exists>w z bts bp. ts = Some w \<and> p = Some z \<and> pcd_totalSupply b = Some bts
           \<and> pcd_lastPrice b = Some bp
           \<and> m = spec_lp_return ti w z (pcd_totalInvariant b) bts bp"
  using assms
  by (auto simp: lp_return_def spec_lp_return_def bind_exn_Inr_iff py_truediv_Inr
      float_truediv_Inr dest!: math_sqrt_Inr)

lemma float_of_int_1: "float_of_int 1 = Inr (Fin 1)"
  by (simp add: float_of_int_def to_double_1)

lemma process_pool_data_Inr:
  assumes "process_pool_data s blk pd = Inr s'"
  obtains lp lpb p ts b m1 m2 row where
    "read_pool_data pd = Inr (Some lp, Some lpb, Some p, Some ts)"
    "b = (case pool_creation_data s of
            None \<Rightarrow> \<lparr>pcd_totalInvariant = fadd lp lpb, pcd_totalSupply = Some ts,
                      pcd_lastPrice = Some p\<rparr>
          | Some d \<Rightarrow> d)"
    "lp_return (fadd lp lpb) (Some ts) (Some p) b = Inr m1"
    "spot_return (Some p) b = Inr m2"
    "make_row (current_timestamp s) blk (fadd lp lpb) (Some ts) (Some p) (Some m1) (Some m2)
       = Inr row"
    "s' = s\<lparr>current_timestamp := current_timestamp s + 604800,
              pool_creation_data := Some b,
              csv_file := save_to_csv row (csv_file s)\<rparr>"
proof -
  from assms obtain olp olpb op ots pcd ti tl sp row where
    rd: "read_pool_data pd = Inr (olp, olpb, op, ots)"
    and cap: "capture_creation_data (pool_creation_data s) olp olpb op ots = Inr pcd"
    and add: "py_add olp olpb = Inr ti"
    and g1: "guarded pcd (lp_return ti ots op) = Inr tl"
    and g2: "guarded pcd (spot_return op) = Inr sp"
    and row: "make_row (current_timestamp s) blk ti ots op tl sp = Inr row"
    and s': "s' = s\<lparr>current_timestamp := current_timestamp s + 7 * 86400,
              pool_creation_data := pcd, csv_file := save_to_csv row (csv_file s)\<rparr>"
    by (auto simp: process_pool_data_def bind_exn_Inr_iff)
  from add obtain lp lpb where o1: "olp = Some lp" "olpb = Some lpb" "ti = fadd lp lpb"
    by (auto simp: py_add_Inr)
  from cap o1 obtain b where pcd: "pcd = Some b"
    by (cases "pool_creation_data s") (auto simp: capture_creation_data_def py_add_def)
  from g1 pcd obtain m1 where m1: "lp_return ti ots op b = Inr m1" "tl = Some m1"
    by (auto simp: guarded_Some_Inr)
  from g2 pcd obtain m2 where m2: "spot_return op b = Inr m2" "sp = Some m2"
    by (auto simp: guarded_Some_Inr)
  from lp_return_Inr [OF m1(1)] obtain ts p where o2: "ots = Some ts" "op = Some p"
    by auto
  from cap have b: "b = (case pool_creation_data s of
            None \<Rightarrow> \<lparr>pcd_totalInvariant = fadd lp lpb, pcd_totalSupply = Some ts,
                      pcd_lastPrice = Some p\<rparr>
          | Some d \<Rightarrow> d)"
    unfolding o1 o2 pcd
    by (cases "pool_creation_data s") (auto simp: capture_creation_data_def py_add_def)
  show ?thesis
  proof (rule that [of lp lpb p ts b m1 m2 row])
    show "read_pool_data pd = Inr (Some lp, Some lpb, Some p, Some ts)"
      using rd by (simp add: o1 o2)
    show "b = (case pool_creation_data s of
            None \<Rightarrow> \<lparr>pcd_totalInvariant = fadd lp lpb, pcd_totalSupply = Some ts,
                      pcd_lastPrice = Some p\<rparr>
          | Some d \<Rightarrow> d)" by (rule b)
    show "lp_return (fadd lp lpb) (Some ts) (Some p) b = Inr m1"
      using m1 by (simp add: o1 o2)
    show "spot_return (Some p) b = Inr m2" using m2 by (simp add: o2)
    show "make_row (current_timestamp s) blk (fadd lp lpb) (Some ts) (Some p) (Some m1) (Some m2)
       = Inr row" using row by (simp add: o1 o2 m1 m2)
    show "s' = s\<lparr>current_timestamp := current_timestamp s + 604800,
              pool_creation_data := Some b,
              csv_file := save_to_csv row (csv_file s)\<rparr>"
      using s' by (simp add: pcd)
  qed
qed

lemma get_block_sent:
  "get_block_from_timestamp t net h = Inr (b, h') \<Longrightarrow> h' = h @ [BlockQuery t]"
  by (auto simp: get_block_from_timestamp_def post_def bind_exn_Inr_iff split: if_splits)

lemma query_pool_sent:
  "query_pool_at_block net pid b h = Inr (p, h') \<Longrightarrow> h' = h @ [PoolQuery pid b]"
  by (auto simp: query_pool_at_block_def post_def bind_exn_Inr_iff split: if_splits)

lemma loop_body_fetched:
  "fetched net s = Some (blk, pd, h) \<Longrightarrow> loop_body net s = process_pool_data (s\<lparr>sent := h\<rparr>) blk pd"
  by (auto simp: fetched_def loop_body_def split: sum.splits if_splits)

lemma fetched_sent:
  "fetched net s = Some (blk, pd, h) \<Longrightarrow>
     h = sent s @ [BlockQuery (current_timestamp s), PoolQuery pool_id blk]"
  by (auto simp: fetched_def split: sum.splits if_splits dest!: get_block_sent query_pool_sent)

lemma loop_body_skip:
  assumes "fetched net s = None" and "loop_body net s = Inr s'"
  shows "\<exists>h. s' = s\<lparr>current_timestamp := current_timestamp s + 604800, sent := h\<rparr>"
  using assms by (auto simp: fetched_def loop_body_def bind_exn_Inr_iff split: sum.splits if_splits)

lemma loop_body_cursor:
  "loop_body net s = Inr s' \<Longrightarrow> current_timestamp s' = current_timestamp s + 604800"
  by (auto simp: loop_body_def process_pool_data_def bind_exn_Inr_iff split: if_splits)

lemma main_loop_iterate:
  "main_loop net today s = iterate_body (iterations today s) net s"
proof (induction net today s rule: main_loop.induct)
  case (1 net today s)
  show ?case
  proof (cases "current_timestamp s \<le> today")
    case False
    then show ?thesis by (subst main_loop.simps) (simp add: iterations_def)
  next
    case True
    then have it: "iterations today s = Suc (nat ((today - current_timestamp s) div 604800))"
      by (simp add: iterations_def)
    show ?thesis
    proof (cases "loop_body net s")
      case (Inl e)
      then show ?thesis using True by (subst main_loop.simps) (simp add: it)
    next
      case (Inr s')
      then have c: "current_timestamp s' = current_timestamp s + 604800"
        by (rule loop_body_cursor)
      have "iterations today s' = nat ((today - current_timestamp s) div 604800)"
        using True by (auto simp: iterations_def c)
      with 1 [OF True Inr] Inr True show ?thesis
        by (subst main_loop.simps) (simp add: it)
    qed
  qed
qed

subsection \<open>The example run of two weeks\<close>

lemma utc_string_first: "utc_string 1711690366 = Inr ''2024-03-29 05:32:46''"
  by code_simp

lemma utc_string_second: "utc_string 1712295166 = Inr ''2024-04-05 05:32:46''"
  by code_simp

lemma float_of_int_first: "float_of_int 2097152000000000000 = Inr (Fin 2097152000000000000)"
proof -
  have "to_double (of_int 244140625 * 2 powi 33) = Fin (of_int 244140625 * 2 powi 33)"
    by (intro to_double_exact [OF refl]) simp_all
  then show ?thesis by (simp add: float_of_int_def)
qed

lemma float_of_int_second: "float_of_int 2097153000000000000 = Inr (Fin 2097153000000000000)"
proof -
  have "to_double (of_int 512000244140625 * 2 powi 12) = Fin (of_int 512000244140625 * 2 powi 12)"
    by (intro to_double_exact [OF refl]) simp_all
  then show ?thesis by (simp add: float_of_int_def)
qed

lemma to_double_half: "to_double (1 / 2) = Fin (1 / 2)"
  using to_double_exact [of "1 / 2" 1 "- 1"] by simp

lemma to_double_ratio: "to_double (2097153 / 2097152) = Fin (2097153 / 2097152)"
  using to_double_exact [of "2097153 / 2097152" 2097153 "- 21"] by simp

lemma to_double_small: "to_double (1 / 2097152) = Fin (1 / 2097152)"
  using to_double_exact [of "1 / 2097152" 1 "- 21"] by simp

lemma binade_1: "binade 1 = 0"
  by (simp add: binade_def bitlen_alt_def)

lemma sqrt_double_1: "sqrt_double 1 = Fin 1"
proof -
  have "isqrt (nat \<lfloor>(4::rat) powi 55\<rfloor>) = 2 ^ 55"
  proof -
    have "nat \<lfloor>(4::rat) powi 55\<rfloor> = 2 ^ 55 * 2 ^ 55" by simp
    then show ?thesis by (simp only: isqrt_square)
  qed
  then show ?thesis by (simp add: sqrt_double_def binade_1 Let_def to_double_1)
qed

lemma round_half_even_numeral: "round_half_even (numeral k) = numeral k"
  using round_half_even_of_int [of "numeral k"] by simp

lemma round_half_even_0: "round_half_even 0 = 0"
  using round_half_even_of_int [of 0] by simp

lemma round_half_even_small: "round_half_even (15625 / 32768) = 0"
proof -
  have "\<lfloor>15625 / 32768 :: rat\<rfloor> = 0" by (rule floor_unique) simp_all
  then show ?thesis by (simp add: round_half_even_def Let_def)
qed

lemmas float_eval =
  float_of_int_first float_of_int_second float_of_int_1 to_double_half to_double_ratio
  to_double_small sqrt_double_1 round_half_even_numeral round_half_even_0
  round_half_even_small math_sqrt_def py_round_def py_round_opt_def round_if_not_none_def
  fsub_def

lemma py_truthy_pools: "py_truthy first_pool" "py_truthy second_pool"
  by (simp_all add: first_pool_def second_pool_def pool_record_def)

lemma fetched_first:
  "fetched (scripted two_week_script) start_state
     = Some (JInt 100, first_pool, [BlockQuery 1711690366, PoolQuery pool_id (JInt 100)])"
  by (simp add: fetched_def start_state_def get_block_from_timestamp_def
      query_pool_at_block_def network_eval two_week_script_def py_truthy_pools)

lemma fetched_second:
  "fetched (scripted two_week_script) after_first
     = Some (JInt 200, second_pool, [BlockQuery 1711690366, PoolQuery pool_id (JInt 100),
              BlockQuery 1712295166, PoolQuery pool_id (JInt 200)])"
  by (simp add: fetched_def after_first_def get_block_from_timestamp_def
      query_pool_at_block_def network_eval two_week_script_def py_truthy_pools)

lemma read_pool_data_first:
  "read_pool_data first_pool
     = Inr (Some (Fin 2097152), Some (Fin 0), Some (Fin 1), Some (Fin 10))"
  by (simp add: read_pool_data_def first_pool_def pool_record_def normalize_eval float_eval)

lemma read_pool_data_second:
  "read_pool_data second_pool
     = Inr (Some (Fin 2097153), Some (Fin 0), Some (Fin 1), Some (Fin 10))"
  by (simp add: read_pool_data_def second_pool_def pool_record_def normalize_eval float_eval)

lemma lp_return_first:
  "lp_return (Fin 2097152) (Some (Fin 10)) (Some (Fin 1)) first_baseline = Inr (Fin 0)"
  by (simp add: lp_return_def first_baseline_def py_truediv_def normalize_eval float_eval)

lemma lp_return_second:
  "lp_return (Fin 2097153) (Some (Fin 10)) (Some (Fin 1)) first_baseline
     = Inr (Fin (1 / 2097152))"
  by (simp add: lp_return_def first_baseline_def py_truediv_def normalize_eval float_eval)

lemma spot_return_first:
  "spot_return (Some (Fin 1)) first_baseline = Inr (Fin 0)"
  by (simp add: spot_return_def first_baseline_def py_truediv_def normalize_eval float_eval)

lemma make_row_first:
  "make_row 1711690366 (JInt 100) (Fin 2097152) (Some (Fin 10)) (Some (Fin 1))
     (Some (Fin 0)) (Some (Fin 0)) = Inr first_row"
  by (simp add: make_row_def utc_string_first first_row_def normalize_eval float_eval)

lemma make_row_second:
  "make_row 1712295166 (JInt 200) (Fin 2097153) (Some (Fin 10)) (Some (Fin 1))
     (Some (Fin (1 / 2097152))) (Some (Fin 0)) = Inr second_row"
  by (simp add: make_row_def utc_string_second second_row_def normalize_eval float_eval)

lemma loop_body_first: "loop_body (scripted two_week_script) start_state = Inr after_first"
proof -
  have "process_pool_data
          (start_state\<lparr>sent := [BlockQuery 1711690366, PoolQuery pool_id (JInt 100)]\<rparr>)
          (JInt 100) first_pool = Inr after_first"
    by (simp add: process_pool_data_def read_pool_data_first capture_creation_data_def
        py_add_def to_double_numeral first_baseline_def [symmetric] guarded_def
        lp_return_first spot_return_first start_state_def make_row_first save_to_csv_def
        after_first_def)
  then show ?thesis by (simp only: loop_body_fetched [OF fetched_first])
qed

lemma loop_body_second: "loop_body (scripted two_week_script) after_first = Inr after_second"
proof -
  have "process_pool_data
          (after_first\<lparr>sent := [BlockQuery 1711690366, PoolQuery pool_id (JInt 100),
              BlockQuery 1712295166, PoolQuery pool_id (JInt 200)]\<rparr>)
          (JInt 200) second_pool = Inr after_second"
    by (simp add: process_pool_data_def read_pool_data_second capture_creation_data_def
        py_add_def to_double_numeral guarded_def lp_return_second spot_return_first
        after_first_def make_row_second save_to_csv_def after_second_def)
  then show ?thesis by (simp only: loop_body_fetched [OF fetched_second])
qed

lemma iterations_two_week: "iterations 1712295166 start_state = 2"
  by (simp add: iterations_def start_state_def)

lemma main_loop_two_week:
  "main_loop (scripted two_week_script) 1712295166 start_state = Inr after_second"
  by (simp add: main_loop_iterate iterations_two_week numeral_2_eq_2 loop_body_first
      loop_body_second)

subsection \<open>Several iterations\<close>





lemma example_cursors:
  "current_timestamp start_state = 1711690366"
  "current_timestamp after_first = 1712295166"
  "current_timestamp after_second = 1712899966"
  by (simp_all add: start_state_def after_first_def after_second_def)

lemma sent_start_state: "sent start_state = []"
  by (simp add: start_state_def)

lemma get_block_zero:
  "get_block_from_timestamp 1711690366 (scripted zero_block_script) []
     = Inr (JInt 0, [BlockQuery 1711690366])"
  by (simp add: get_block_from_timestamp_def network_eval zero_block_script_def)

subsection \<open>The row and the metrics of a sample\<close>

lemma make_row_Inr:
  assumes "make_row t blk ti (Some ts) (Some p) (Some m1) (Some m2) = Inr row"
  shows "utc_string t = Inr (utcTimestamp row) \<and> blockNumber row = blk
     \<and> py_round ti 6 = Inr (totalInvariant row)
     \<and> py_round ts 6 = Inr (totalSupply row)
     \<and> py_round p 6 = Inr (lastPrice row)
     \<and> (\<exists>r. py_round m1 6 = Inr r \<and> totalLPReturnPercent row = Some r)
     \<and> (\<exists>r. py_round m2 6 = Inr r \<and> spotReturnPercent row = Some r)"
  using assms
  by (auto simp: make_row_def bind_exn_Inr_iff py_round_opt_def round_if_not_none_def)

lemma fetched_csv_file [simp]: "fetched net (s\<lparr>csv_file := f\<rparr>) = fetched net s"
  by (simp add: fetched_def)

lemma spec_lp_return_second:
  "spec_lp_return (fadd (Fin 2097153) (Fin 0)) (Fin 10) (Fin 1) (Fin 2097152) (Fin 10) (Fin 1)
     = Fin (1 / 2097152)"
  by (simp add: spec_lp_return_def to_double_numeral to_double_1 float_eval)










subsection \<open>The baseline along a run\<close>

lemma loop_body_success:
  assumes "fetched net s = Some (blk, pd, h)" and "loop_body net s = Inr s'"
  obtains lp lpb p ts b m1 m2 row where
    "read_pool_data pd = Inr (Some lp, Some lpb, Some p, Some ts)"
    "b = (case pool_creation_data s of
            None \<Rightarrow> \<lparr>pcd_totalInvariant = fadd lp lpb, pcd_totalSupply = Some ts,
                      pcd_lastPrice = Some p\<rparr>
          | Some d \<Rightarrow> d)"
    "lp_return (fadd lp lpb) (Some ts) (Some p) b = Inr m1"
    "spot_return (Some p) b = Inr m2"
    "make_row (current_timestamp s) blk (fadd lp lpb) (Some ts) (Some p) (Some m1) (Some m2)
       = Inr row"
    "s' = s\<lparr>current_timestamp := current_timestamp s + 604800,
              pool_creation_data := Some b,
              csv_file := save_to_csv row (csv_file s), sent := h\<rparr>"
proof -
  from assms(2) have "process_pool_data (s\<lparr>sent := h\<rparr>) blk pd = Inr s'"
    by (simp only: loop_body_fetched [OF assms(1)])
  then obtain lp lpb p ts b m1 m2 row where
    rd: "read_pool_data pd = Inr (Some lp, Some lpb, Some p, Some ts)"
    and b: "b = (case pool_creation_data (s\<lparr>sent := h\<rparr>) of
            None \<Rightarrow> \<lparr>pcd_totalInvariant = fadd lp lpb, pcd_totalSupply = Some ts,
                      pcd_lastPrice = Some p\<rparr>
          | Some d \<Rightarrow> d)"
    and m1: "lp_return (fadd lp lpb) (Some ts) (Some p) b = Inr m1"
    and m2: "spot_return (Some p) b = Inr m2"
    and row: "make_row (current_timestamp (s\<lparr>sent := h\<rparr>)) blk (fadd lp lpb)
       (Some ts) (Some p) (Some m1) (Some m2) = Inr row"
    and s': "s' = s\<lparr>sent := h\<rparr>\<lparr>current_timestamp := current_timestamp (s\<lparr>sent := h\<rparr>) + 604800,
              pool_creation_data := Some b,
              csv_file := save_to_csv row (csv_file (s\<lparr>sent := h\<rparr>))\<rparr>"
    by (rule process_pool_data_Inr)
  show ?thesis
  proof (rule that [of lp lpb p ts b m1 m2 row])
    show "read_pool_data pd = Inr (Some lp, Some lpb, Some p, Some ts)" by (rule rd)
    show "b = (case pool_creation_data s of
            None \<Rightarrow> \<lparr>pcd_totalInvariant = fadd lp lpb, pcd_totalSupply = Some ts,
                      pcd_lastPrice = Some p\<rparr>
          | Some d \<Rightarrow> d)" using b by simp
    show "lp_return (fadd lp lpb) (Some ts) (Some p) b = Inr m1" by (rule m1)
    show "spot_return (Some p) b = Inr m2" by (rule m2)
    show "make_row (current_timestamp s) blk (fadd lp lpb) (Some ts) (Some p) (Some m1)
        (Some m2) = Inr row" using row by simp
    show "s' = s\<lparr>current_timestamp := current_timestamp s + 604800,
              pool_creation_data := Some b,
              csv_file := save_to_csv row (csv_file s), sent := h\<rparr>"
      unfolding s' by simp
  qed
qed

lemma loop_body_baseline:
  assumes "pool_creation_data s = Some b" and "loop_body net s = Inr s'"
  shows "pool_creation_data s' = Some b"
proof (cases "fetched net s")
  case None
  from loop_body_skip [OF None assms(2)] assms(1) show ?thesis by auto
next
  case (Some f)
  then obtain blk pd h where f: "fetched net s = Some (blk, pd, h)" by (cases f) auto
  from f assms(2) show ?thesis
    by (rule loop_body_success) (simp add: assms(1))
qed

lemma iterate_body_baseline:
  "pool_creation_data s = Some b \<Longrightarrow> iterate_body n net s = Inr t \<Longrightarrow>
     pool_creation_data t = Some b"
proof (induction n arbitrary: s)
  case 0
  then show ?case by simp
next
  case (Suc n)
  from Suc.prems(2) obtain s' where 1: "loop_body net s = Inr s'"
    and 2: "iterate_body n net s' = Inr t"
    by (auto split: sum.splits)
  from Suc.IH [OF loop_body_baseline [OF Suc.prems(1) 1] 2] show ?case .
qed

lemma all_skipped_unchanged:
  "all_skipped k net s \<Longrightarrow> iterate_body k net s = Inr t \<Longrightarrow>
     pool_creation_data t = pool_creation_data s \<and> csv_file t = csv_file s"
proof (induction k arbitrary: s)
  case 0
  then show ?case by simp
next
  case (Suc k)
  from Suc.prems(2) obtain s' where 1: "loop_body net s = Inr s'"
    and 2: "iterate_body k net s' = Inr t"
    by (auto split: sum.splits)
  from Suc.prems(1) 1 have 3: "fetched net s = None" and 4: "all_skipped k net s'" by simp_all
  from loop_body_skip [OF 3 1] Suc.IH [OF 4 2] show ?case by auto
qed

lemma process_first:
  assumes "current_timestamp s = 1711690366" and "pool_creation_data s = None"
  shows "process_pool_data s (JInt 100) first_pool
     = Inr (s\<lparr>current_timestamp := 1712295166, pool_creation_data := Some first_baseline,
              csv_file := save_to_csv first_row (csv_file s)\<rparr>)"
  by (simp add: process_pool_data_def read_pool_data_first capture_creation_data_def
      py_add_def to_double_numeral first_baseline_def [symmetric] guarded_def
      lp_return_first spot_return_first assms make_row_first)

lemma process_second:
  assumes "current_timestamp s = 1712295166" and "pool_creation_data s = Some first_baseline"
  shows "process_pool_data s (JInt 200) second_pool
     = Inr (s\<lparr>current_timestamp := 1712899966,
              csv_file := save_to_csv second_row (csv_file s)\<rparr>)"
  by (simp add: process_pool_data_def read_pool_data_second capture_creation_data_def
      py_add_def to_double_numeral guarded_def lp_return_second spot_return_first assms
      make_row_second)

lemma fetched_early: "fetched (scripted late_script) early_state = None"
  by (simp add: fetched_def early_state_def get_block_from_timestamp_def network_eval
      late_script_def)

lemma loop_body_early: "loop_body (scripted late_script) early_state = Inr late_start"
  by (simp add: loop_body_def early_state_def get_block_from_timestamp_def network_eval
      late_script_def late_start_def)

lemma fetched_late_start:
  "fetched (scripted late_script) late_start
     = Some (JInt 100, first_pool,
             [BlockQuery 1711085566, BlockQuery 1711690366, PoolQuery pool_id (JInt 100)])"
  by (simp add: fetched_def late_start_def get_block_from_timestamp_def
      query_pool_at_block_def network_eval late_script_def two_week_script_def
      py_truthy_pools)

lemma fetched_late_first:
  "fetched (scripted late_script) late_first
     = Some (JInt 200, second_pool,
             [BlockQuery 1711085566, BlockQuery 1711690366, PoolQuery pool_id (JInt 100),
              BlockQuery 1712295166, PoolQuery pool_id (JInt 200)])"
  by (simp add: fetched_def late_first_def get_block_from_timestamp_def
      query_pool_at_block_def network_eval late_script_def two_week_script_def
      py_truthy_pools)

lemma loop_body_late_start: "loop_body (scripted late_script) late_start = Inr late_first"
  by (simp only: loop_body_fetched [OF fetched_late_start])
     (simp add: process_first late_start_def late_first_def save_to_csv_def)

lemma loop_body_late_first: "loop_body (scripted late_script) late_first = Inr late_second"
  by (simp only: loop_body_fetched [OF fetched_late_first])
     (simp add: process_second late_first_def late_second_def save_to_csv_def)

subsection \<open>The rounding error of binary64 and of \<open>normalize_value\<close>\<close>

lemma round_half_even_error: "\<bar>of_int (round_half_even z) - z\<bar> \<le> 1 / 2"
proof -
  have "of_int \<lfloor>z\<rfloor> \<le> z" "z < of_int \<lfloor>z\<rfloor> + 1" by linarith+
  then show ?thesis by (auto simp: round_half_even_def Let_def abs_le_iff)
qed

lemma to_double_rel:
  assumes lo: "1 / 2 ^ 1022 \<le> \<bar>q\<bar>" and hi: "\<bar>q\<bar> \<le> 2 ^ 1023"
  shows "\<exists>r. to_double q = Fin r \<and> \<bar>r - q\<bar> \<le> \<bar>q\<bar> / 2 ^ 53"
proof -
  have pos: "0 < \<bar>q\<bar>" using lo by (rule less_le_trans [rotated]) simp
  then have nz: "q \<noteq> 0" by simp
  define e where "e = binade q"
  have low: "(2::rat) powi e \<le> \<bar>q\<bar>" unfolding e_def by (rule binade_lower [OF nz])
  have upp: "\<bar>q\<bar> < 2 powi (e + 1)" unfolding e_def by (rule binade_upper [OF nz])
  have "(2::rat) powi (- int 1022) = 1 / 2 ^ 1022"
    by (simp only: power_int_minus power_int_of_nat inverse_eq_divide)
  moreover have "- int 1022 = - 1022" by simp
  ultimately have "(2::rat) powi (- 1022) = 1 / 2 ^ 1022" by (simp only:)
  with lo upp have "(2::rat) powi (- 1022) < 2 powi (e + 1)" by simp
  then have e: "- 1022 \<le> e"
    using power_int_increasing [of "e + 1" "- 1022" "2::rat"] by (cases "- 1022 \<le> e") auto
  then have ue: "max (e - 52) (- 1074) = e - 52" by simp
  define u :: rat where "u = 2 powi (e - 52)"
  have u: "0 < u" by (simp add: u_def)
  define r where "r = of_int (round_half_even (q / u)) * u"
  have "\<bar>r - q\<bar> = \<bar>of_int (round_half_even (q / u)) - q / u\<bar> * u"
  proof -
    have "r - q = (of_int (round_half_even (q / u)) - q / u) * u"
      using u by (simp add: r_def field_simps)
    then show ?thesis using u by (simp add: abs_mult)
  qed
  also have "\<dots> \<le> 1 / 2 * u"
    using u round_half_even_error [of "q / u"] by (intro mult_right_mono) auto
  also have "1 / 2 * u = 2 powi e / 2 ^ 53"
  proof -
    have "(2::rat) powi (e - 53) = 2 powi e / 2 powi 53" by (rule power_int_diff) simp
    moreover have "(2::rat) powi (e - 53 + 1) = 2 powi (e - 53) * 2" by (rule power_int_add_1) simp
    ultimately show ?thesis by (simp add: u_def)
  qed
  also have "\<dots> \<le> \<bar>q\<bar> / 2 ^ 53" using low by (simp add: divide_right_mono)
  finally have err: "\<bar>r - q\<bar> \<le> \<bar>q\<bar> / 2 ^ 53" .
  have "\<bar>r\<bar> \<le> \<bar>q\<bar> + \<bar>r - q\<bar>" by simp
  also have "\<dots> \<le> \<bar>q\<bar> + \<bar>q\<bar> / 2 ^ 53" using err by simp
  also have "\<dots> \<le> 2 ^ 1023 + 2 ^ 1023 / 2 ^ 53"
    using hi by (intro add_mono divide_right_mono) auto
  also have "\<dots> < (2::rat) ^ 1024" by simp
  finally have fin: "\<not> 2 ^ 1024 \<le> \<bar>r\<bar>" by simp
  have "to_double q =
     (let u = 2 powi (e - 52); r = of_int (round_half_even (q / u)) * u
      in if 2 ^ 1024 \<le> \<bar>r\<bar> then (if 0 < q then PInf else NInf) else Fin r)"
    by (simp only: to_double_def e_def [symmetric] ue nz if_False)
  also have "\<dots> = Fin r"
    using fin by (simp only: Let_def u_def [symmetric] r_def [symmetric] if_False)
  finally show ?thesis using err by blast
qed

lemma float_of_int_rel:
  assumes "n \<noteq> 0" and "\<bar>n\<bar> \<le> 2 ^ 1023"
  shows "\<exists>r. float_of_int n = Inr (Fin r) \<and> \<bar>r - of_int n\<bar> \<le> \<bar>of_int n\<bar> / 2 ^ 53"
proof -
  have "1 \<le> \<bar>n\<bar>" using assms(1) by simp
  then have "(of_int 1 :: rat) \<le> of_int \<bar>n\<bar>" by (simp only: of_int_le_iff)
  then have one: "(1::rat) \<le> \<bar>of_int n\<bar>" by (simp only: of_int_1 of_int_abs)
  have "(1::rat) / 2 ^ 1022 \<le> 1" by simp
  then have lo: "1 / 2 ^ 1022 \<le> \<bar>of_int n :: rat\<bar>" using one by (rule order_trans)
  have "(of_int \<bar>n\<bar> :: rat) \<le> of_int (2 ^ 1023)" using assms(2) by (simp only: of_int_le_iff)
  then have hi: "\<bar>of_int n :: rat\<bar> \<le> 2 ^ 1023"
    by (simp only: of_int_abs of_int_power of_int_numeral)
  from to_double_rel [OF lo hi] obtain r where
    r: "to_double (of_int n) = Fin r" and e: "\<bar>r - of_int n\<bar> \<le> \<bar>of_int n\<bar> / 2 ^ 53"
    by blast
  have "float_of_int n = Inr (Fin r)" by (simp only: float_of_int_def r pyfloat.case)
  with e show ?thesis by blast
qed

lemma abs_near:
  fixes a b K :: rat
  assumes "\<bar>b - a\<bar> \<le> \<bar>a\<bar> / K" and "4 \<le> K"
  shows "\<bar>b\<bar> \<le> 5 / 4 * \<bar>a\<bar>" and "3 / 4 * \<bar>a\<bar> \<le> \<bar>b\<bar>"
proof -
  have "\<bar>a\<bar> / K \<le> \<bar>a\<bar> / 4"
    using assms(2) by (intro divide_left_mono) auto
  with assms(1) have "\<bar>b - a\<bar> \<le> \<bar>a\<bar> / 4" by (rule order_trans)
  then show "\<bar>b\<bar> \<le> 5 / 4 * \<bar>a\<bar>" and "3 / 4 * \<bar>a\<bar> \<le> \<bar>b\<bar>" by linarith+
qed

lemma product_error:
  fixes V T x K :: rat
  assumes T: "0 < T" and 2: "\<bar>x - V / T\<bar> \<le> \<bar>V / T\<bar> / K"
  shows "\<bar>x * T - V\<bar> \<le> \<bar>V\<bar> / K"
proof -
  have "x * T - V = (x - V / T) * T" using T by (simp add: field_simps)
  then have "\<bar>x * T - V\<bar> = \<bar>x - V / T\<bar> * T" using T by (simp add: abs_mult)
  also have "\<dots> \<le> \<bar>V / T\<bar> / K * T" using 2 T by (simp only: mult_le_cancel_right_pos)
  also have "\<dots> = \<bar>V\<bar> / K" using T by (simp add: abs_divide)
  finally show ?thesis .
qed

lemma roundtrip_error:
  fixes v V T x y K :: rat
  assumes T: "0 < T" and K: "4 \<le> K"
    and 1: "\<bar>V - v\<bar> \<le> \<bar>v\<bar> / K"
    and 2: "\<bar>x - V / T\<bar> \<le> \<bar>V / T\<bar> / K"
    and 3: "\<bar>y - x * T\<bar> \<le> \<bar>x * T\<bar> / K"
  shows "\<bar>y - v\<bar> \<le> 4 * (\<bar>v\<bar> / K)"
proof -
  have Kpos: "0 < K" using K by simp
  have P: "\<bar>x * T - V\<bar> \<le> \<bar>V\<bar> / K" using T 2 by (rule product_error)
  define q where "q = \<bar>v\<bar> / K"
  have q: "0 \<le> q" using Kpos by (simp add: q_def)
  have V: "\<bar>V\<bar> \<le> 5 / 4 * \<bar>v\<bar>" using 1 K by (rule abs_near)
  have "\<bar>x * T\<bar> \<le> 5 / 4 * \<bar>V\<bar>" using P K by (rule abs_near)
  with V have xT: "\<bar>x * T\<bar> \<le> 25 / 16 * \<bar>v\<bar>" by linarith
  have "\<bar>V\<bar> / K \<le> (5 / 4 * \<bar>v\<bar>) / K" using V Kpos by (simp only: divide_right_mono less_imp_le)
  then have a: "\<bar>V\<bar> / K \<le> 5 / 4 * q" by (simp add: q_def)
  have "\<bar>x * T\<bar> / K \<le> (25 / 16 * \<bar>v\<bar>) / K"
    using xT Kpos by (simp only: divide_right_mono less_imp_le)
  then have b: "\<bar>x * T\<bar> / K \<le> 25 / 16 * q" by (simp add: q_def)
  have "\<bar>y - v\<bar> \<le> \<bar>y - x * T\<bar> + \<bar>x * T - V\<bar> + \<bar>V - v\<bar>" by linarith
  also have "\<dots> \<le> 25 / 16 * q + 5 / 4 * q + q"
    using 1 3 P a b by (simp only: q_def [symmetric])
  also have "\<dots> \<le> 4 * q" using q by linarith
  finally show "\<bar>y - v\<bar> \<le> 4 * (\<bar>v\<bar> / K)" by (simp only: q_def)
qed

lemma is_digit_chars:
  assumes "is_digit c"
  shows "\<not> is_space c" "c \<noteq> CHR ''_''" "c \<noteq> CHR ''-''" "c \<noteq> CHR ''+''" "lower c = c"
    "c \<noteq> CHR ''i''" "c \<noteq> CHR ''n''" "c \<noteq> CHR ''.''" "c \<noteq> CHR ''e''" "c \<noteq> CHR ''E''"
  using assms by (auto simp: is_digit_def is_space_def lower_def)

lemma digitpart_digits: "list_all is_digit s \<Longrightarrow> digitpart s = (s, [])"
proof (induction s)
  case Nil
  then show ?case by simp
next
  case (Cons c cs)
  from Cons.prems have c: "is_digit c" and cs: "list_all is_digit cs" by simp_all
  from Cons.IH [OF cs] have ih: "digitpart cs = (cs, [])" .
  show ?case
  proof (cases cs)
    case Nil
    then show ?thesis using c by simp
  next
    case (Cons u t)
    with cs have "is_digit u" by simp
    then have u: "u \<noteq> CHR ''_''" by (rule is_digit_chars(2))
    show ?thesis
    proof (cases t)
      case Nil
      with Cons c ih show ?thesis by simp
    next
      case (Cons d t')
      with \<open>cs = u # t\<close> c u ih show ?thesis by simp
    qed
  qed
qed

lemma strip_digits:
  assumes "s \<noteq> []" "list_all is_digit s"
  shows "strip s = s"
proof -
  obtain c cs where s: "s = c # cs" using assms(1) by (cases s) auto
  with assms(2) have "\<not> is_space c" using is_digit_chars(1) by simp
  then have 1: "dropWhile is_space s = s" by (simp add: s)
  have "rev s \<noteq> []" using assms(1) by simp
  then obtain b bs where r: "rev s = b # bs" by (cases "rev s") auto
  then have "b \<in> set s" by (metis list.set_intros(1) set_rev)
  with assms(2) have "\<not> is_space b" using is_digit_chars(1) by (auto simp: list_all_iff)
  then have "dropWhile is_space (rev s) = rev s" by (simp add: r)
  with 1 show ?thesis by (simp add: strip_def)
qed

lemma float_of_digit_string:
  assumes "s \<noteq> []" "list_all is_digit s"
  shows "float_of_string s = Some (to_double (of_int (decimal s)))"
proof -
  obtain c cs where s: "s = c # cs" using assms(1) by (cases s) auto
  with assms(2) have c: "is_digit c" by simp
  have sign: "parse_sign s = (False, s)"
    using is_digit_chars(3,4) [OF c] by (simp add: parse_sign_def s)
  have "map lower s = c # map lower cs" using is_digit_chars(5) [OF c] by (simp add: s)
  then have low: "map lower s \<noteq> ''inf''" "map lower s \<noteq> ''infinity''" "map lower s \<noteq> ''nan''"
    using is_digit_chars(6,7) [OF c] by auto
  show ?thesis
    using assms(1)
    by (simp add: float_of_string_def strip_digits [OF assms] sign low
        digitpart_digits [OF assms(2)] exponent_def)
qed

lemma py_float_fixed_point:
  assumes "fixed_point value = Some v" and "float_of_int v = Inr (Fin V)"
  shows "py_float value = Inr (Fin V)"
proof (cases "value")
  case (JInt n)
  with assms show ?thesis by (simp add: fixed_point_def)
next
  case (JStr s)
  with assms(1) have s: "s \<noteq> []" "list_all is_digit s" and v: "v = decimal s"
    by (auto simp: fixed_point_def split: if_splits)
  from assms(2) have "to_double (of_int v) = Fin V"
    by (auto simp: float_of_int_def split: pyfloat.splits)
  then show ?thesis by (simp add: JStr float_of_digit_string [OF s] v)
qed (use assms(1) in \<open>simp_all add: fixed_point_def\<close>)

lemma normalize_roundtrip_nonzero:
  assumes fp: "fixed_point value = Some v" and nz: "v \<noteq> 0"
    and v: "\<bar>v\<bar> \<le> 2 ^ 1000" and d: "d \<le> 300"
  shows "\<exists>x y. normalize_value value d = Inr (Some (Fin x))
           \<and> float_mul_int (Fin x) (10 ^ d) = Inr (Fin y)
           \<and> \<bar>y - of_int v\<bar> \<le> \<bar>of_int v\<bar> / 2 ^ 51"
proof -
  define a :: rat where "a = \<bar>of_int v\<bar>"
  define t :: rat where "t = 10 ^ d"
  define K :: rat where "K = 2 ^ 53"
  have K: "4 \<le> K" by (simp add: K_def)
  \<comment> \<open>the sizes of the value and of the power of ten\<close>
  have "1 \<le> \<bar>v\<bar>" using nz by simp
  then have "(of_int 1 :: rat) \<le> of_int \<bar>v\<bar>" by (simp only: of_int_le_iff)
  then have a1: "1 \<le> a" by (simp only: a_def of_int_1 of_int_abs)
  have "(of_int \<bar>v\<bar> :: rat) \<le> of_int (2 ^ 1000)" using v by (simp only: of_int_le_iff)
  then have a2: "a \<le> 2 ^ 1000" by (simp only: a_def of_int_abs of_int_power of_int_numeral)
  have t1: "1 \<le> t" by (simp add: t_def)
  have t2: "t \<le> 10 ^ 300" unfolding t_def using d by (intro power_increasing) auto
  \<comment> \<open>\<open>float(value)\<close>\<close>
  have "\<bar>v\<bar> \<le> 2 ^ 1023" using v by (rule order_trans) simp
  from float_of_int_rel [OF nz this] obtain V where
    V: "float_of_int v = Inr (Fin V)" and Ve: "\<bar>V - of_int v\<bar> \<le> a / K"
    unfolding a_def K_def by blast
  have pf: "py_float value = Inr (Fin V)" using fp V by (rule py_float_fixed_point)
  have V1: "\<bar>V\<bar> \<le> 5 / 4 * a" and V2: "3 / 4 * a \<le> \<bar>V\<bar>"
    using Ve K unfolding a_def by (rule abs_near)+
  \<comment> \<open>the power of ten as a float\<close>
  have "(10::int) ^ d \<le> 10 ^ 300" using d by (intro power_increasing) auto
  also have "\<dots> \<le> (2::int) ^ 1023" by simp
  finally have "\<bar>(10::int) ^ d\<bar> \<le> 2 ^ 1023" by simp
  moreover have "(10::int) ^ d \<noteq> 0" by simp
  ultimately obtain T where
    T: "float_of_int (10 ^ d) = Inr (Fin T)"
    and Te': "\<bar>T - of_int (10 ^ d)\<bar> \<le> \<bar>of_int (10 ^ d)\<bar> / 2 ^ 53"
    using float_of_int_rel [of "10 ^ d"] by blast
  have tt: "(of_int (10 ^ d) :: rat) = t" by (simp add: t_def)
  have "\<bar>t\<bar> = t" using t1 by simp
  with Te' have Te: "\<bar>T - t\<bar> \<le> \<bar>t\<bar> / K" by (simp only: tt K_def)
  have "\<bar>T\<bar> \<le> 5 / 4 * \<bar>t\<bar>" and "3 / 4 * \<bar>t\<bar> \<le> \<bar>T\<bar>" using Te K by (rule abs_near)+
  with Te t1 K have T1: "T \<le> 5 / 4 * t" and T2: "3 / 4 * t \<le> T"
  proof -
    have "\<bar>t\<bar> / K \<le> \<bar>t\<bar> / 4" using K by (intro divide_left_mono) auto
    with Te have "\<bar>T - t\<bar> \<le> \<bar>t\<bar> / 4" by (rule order_trans)
    then have "\<bar>T - t\<bar> \<le> t / 4" by (simp only: \<open>\<bar>t\<bar> = t\<close>)
    then show "T \<le> 5 / 4 * t" and "3 / 4 * t \<le> T" by linarith+
  qed
  have Tpos: "0 < T" using T2 t1 by linarith
  have T3: "3 / 4 \<le> T" using T2 t1 by linarith
  have T4: "T \<le> 5 / 4 * 10 ^ 300" using T1 t2 by linarith
  \<comment> \<open>the quotient\<close>
  have q: "\<bar>V / T\<bar> = \<bar>V\<bar> / T" using Tpos by (simp add: abs_divide)
  have "\<bar>V\<bar> / T \<le> (5 / 4 * 2 ^ 1000) / (3 / 4)"
    using V1 a2 T3 by (intro frac_le) auto
  also have "\<dots> \<le> (2::rat) ^ 1023" by simp
  finally have qhi: "\<bar>V / T\<bar> \<le> 2 ^ 1023" by (simp only: q)
  have "(1::rat) / 2 ^ 1022 \<le> (3 / 4) / (5 / 4 * 10 ^ 300)" by simp
  also have "\<dots> \<le> \<bar>V\<bar> / T"
    using V2 a1 T4 Tpos by (intro frac_le) auto
  finally have qlo: "1 / 2 ^ 1022 \<le> \<bar>V / T\<bar>" by (simp only: q)
  from to_double_rel [OF qlo qhi] obtain x where
    x: "to_double (V / T) = Fin x" and xe: "\<bar>x - V / T\<bar> \<le> \<bar>V / T\<bar> / K"
    unfolding K_def by blast
  have Tnz: "T \<noteq> 0" using Tpos by simp
  have norm: "normalize_value value d = Inr (Some (Fin x))"
    using Tnz by (simp add: normalize_value_def pf float_truediv_int_def T float_truediv_def x)
  \<comment> \<open>the product\<close>
  have P: "\<bar>x * T - V\<bar> \<le> \<bar>V\<bar> / K"
    using Tpos xe by (rule product_error)
  have P1: "\<bar>x * T\<bar> \<le> 5 / 4 * \<bar>V\<bar>" and P2: "3 / 4 * \<bar>V\<bar> \<le> \<bar>x * T\<bar>"
    using P K by (rule abs_near)+
  have "\<bar>x * T\<bar> \<le> 25 / 16 * 2 ^ 1000" using P1 V1 a2 by linarith
  also have "\<dots> \<le> (2::rat) ^ 1023" by simp
  finally have phi: "\<bar>x * T\<bar> \<le> 2 ^ 1023" .
  have "(1::rat) / 2 ^ 1022 \<le> 9 / 16" by simp
  also have "\<dots> \<le> \<bar>x * T\<bar>" using P2 V2 a1 by linarith
  finally have plo: "1 / 2 ^ 1022 \<le> \<bar>x * T\<bar>" .
  from to_double_rel [OF plo phi] obtain y where
    y: "to_double (x * T) = Fin y" and ye: "\<bar>y - x * T\<bar> \<le> \<bar>x * T\<bar> / K"
    unfolding K_def by blast
  have mul: "float_mul_int (Fin x) (10 ^ d) = Inr (Fin y)"
    by (simp add: float_mul_int_def T y)
  have "\<bar>y - of_int v\<bar> \<le> 4 * (\<bar>of_int v\<bar> / K)"
    using Tpos K Ve [unfolded a_def] xe ye by (rule roundtrip_error)
  also have "\<dots> = \<bar>of_int v\<bar> / 2 ^ 51" by (simp add: K_def)
  finally show ?thesis using norm mul by blast
qed

lemma float_of_power_of_ten:
  assumes "d \<le> 300"
  shows "\<exists>T. float_of_int (10 ^ d) = Inr (Fin T) \<and> T \<noteq> 0"
proof -
  have "(10::int) ^ d \<le> 10 ^ 300" using assms by (intro power_increasing) auto
  also have "\<dots> \<le> (2::int) ^ 1023" by simp
  finally have "\<bar>(10::int) ^ d\<bar> \<le> 2 ^ 1023" by simp
  moreover have nz: "(10::int) ^ d \<noteq> 0" by simp
  ultimately obtain T where
    T: "float_of_int (10 ^ d) = Inr (Fin T)"
    and Te: "\<bar>T - of_int (10 ^ d)\<bar> \<le> \<bar>of_int (10 ^ d)\<bar> / 2 ^ 53"
    using float_of_int_rel [of "10 ^ d"] by blast
  have "T \<noteq> 0"
  proof
    assume "T = 0"
    with Te have "\<bar>of_int (10 ^ d) :: rat\<bar> \<le> \<bar>of_int (10 ^ d)\<bar> / 2 ^ 53" by simp
    moreover have "0 < \<bar>of_int (10 ^ d) :: rat\<bar>" by simp
    ultimately show False by (simp add: field_simps)
  qed
  with T show ?thesis by blast
qed

lemma normalize_roundtrip_zero:
  assumes fp: "fixed_point value = Some 0" and d: "d \<le> 300"
  shows "normalize_value value d = Inr (Some (Fin 0))
           \<and> float_mul_int (Fin 0) (10 ^ d) = Inr (Fin 0)"
proof -
  from float_of_power_of_ten [OF d] obtain T where
    T: "float_of_int (10 ^ d) = Inr (Fin T)" and Tnz: "T \<noteq> 0" by blast
  have pf: "py_float value = Inr (Fin 0)" using fp float_of_int_0 by (rule py_float_fixed_point)
  show ?thesis
    using Tnz
    by (simp add: normalize_value_def pf float_truediv_int_def T float_truediv_def
        float_mul_int_def to_double_0)
qed

subsection \<open>Floats that are already rounded\<close>

text \<open>
  Rounding a double again gives the same double, so dividing a sum of two floats by
  \<open>1\<close>, as line 144 does, leaves it as it is; hence \<open>spot_return\<close> is the formula
  \<open>spec_spot_return\<close> wherever it returns.
\<close>

lemma round_half_even_le:
  assumes "x \<le> of_int n"
  shows "round_half_even x \<le> n"
proof -
  have fl: "\<lfloor>x\<rfloor> \<le> n" using assms by (simp add: floor_le_iff)
  show ?thesis
  proof (cases "\<lfloor>x\<rfloor> = n")
    case True
    then have "x = of_int n" using assms by (metis floor_less_iff less_le not_less of_int_floor_le order_refl)
    then show ?thesis by (simp add: round_half_even_of_int)
  next
    case False
    with fl have "\<lfloor>x\<rfloor> + 1 \<le> n" by simp
    then show ?thesis by (auto simp: round_half_even_def Let_def)
  qed
qed

lemma to_double_idem:
  assumes "to_double q = Fin r"
  shows "to_double r = Fin r"
proof (cases "q = 0")
  case True
  with assms show ?thesis by (simp add: to_double_def)
next
  case False
  define b where "b = binade q"
  define ue where "ue = max (b - 52) (- 1074)"
  define u :: rat where "u = 2 powi ue"
  define n where "n = round_half_even (q / u)"
  have u: "0 < u" by (simp add: u_def)
  have td: "to_double q =
     (if 2 ^ 1024 \<le> \<bar>of_int n * u\<bar> then (if 0 < q then PInf else NInf) else Fin (of_int n * u))"
    using False by (simp only: to_double_def Let_def b_def ue_def u_def n_def if_False)
  with assms have fin: "\<not> 2 ^ 1024 \<le> \<bar>of_int n * u\<bar>" and r: "r = of_int n * u"
    by (auto split: if_splits)
  have low: "(2::rat) powi b \<le> \<bar>q\<bar>" unfolding b_def by (rule binade_lower [OF False])
  have upp: "\<bar>q\<bar> < 2 powi (b + 1)" unfolding b_def by (rule binade_upper [OF False])
  \<comment> \<open>the integer has at most 53 bits, the last only for a power of two\<close>
  have "(2::rat) powi (b + 1) \<le> 2 powi (ue + 53)"
    by (intro power_int_increasing) (auto simp: ue_def)
  also have "\<dots> = 2 ^ 53 * u"
  proof -
    have "(2::rat) powi (53 + ue) = 2 powi 53 * 2 powi ue" by (rule power_int_add) simp
    then show ?thesis by (simp add: u_def add.commute)
  qed
  finally have "\<bar>q\<bar> < 2 ^ 53 * u" using upp by simp
  then have qu: "\<bar>q / u\<bar> < 2 ^ 53" using u by (simp add: abs_divide field_simps)
  have c: "(of_int (2 ^ 53) :: rat) = 2 ^ 53" "(of_int (- (2 ^ 53)) :: rat) = - (2 ^ 53)"
    by simp_all
  have "q / u \<le> 2 ^ 53" "- (2 ^ 53) \<le> q / u" using qu by linarith+
  then have le: "q / u \<le> of_int (2 ^ 53)" and ge: "of_int (- (2 ^ 53)) \<le> q / u"
    by (simp_all only: c)
  have n: "n \<le> 2 ^ 53" "- (2 ^ 53) \<le> n"
    unfolding n_def by (rule round_half_even_le [OF le], rule round_half_even_ge [OF ge])
  show ?thesis
  proof (cases "n = 0")
    case True
    then show ?thesis by (simp add: r to_double_def)
  next
    case n0: False
    \<comment> \<open>the exponent is in range, as the value is finite\<close>
    have abs_r: "\<bar>of_int n * u\<bar> = of_int \<bar>n\<bar> * u" using u by (simp add: abs_mult)
    have ue_lo: "- 1074 \<le> ue" by (simp add: ue_def)
    have ue_hi: "ue \<le> 971"
    proof (rule ccontr)
      assume "\<not> ue \<le> 971"
      then have big: "972 \<le> ue" by simp
      then have ue_eq: "ue = b - 52" by (simp add: ue_def)
      have "(2::rat) powi (52 + ue) = 2 powi 52 * 2 powi ue" by (rule power_int_add) simp
      then have "2 ^ 52 * u = (2::rat) powi b" by (simp add: u_def ue_eq)
      with low have "2 ^ 52 * u \<le> \<bar>q\<bar>" by simp
      then have "2 ^ 52 \<le> \<bar>q / u\<bar>" using u by (simp add: abs_divide field_simps)
      then have "2 ^ 52 \<le> q / u \<or> q / u \<le> - (2 ^ 52)" by linarith
      moreover have "(of_int (2 ^ 52) :: rat) = 2 ^ 52" "(of_int (- (2 ^ 52)) :: rat) = - (2 ^ 52)"
        by simp_all
      ultimately have "of_int (2 ^ 52) \<le> q / u \<or> q / u \<le> of_int (- (2 ^ 52))"
        by (simp only:)
      then have "2 ^ 52 \<le> n \<or> n \<le> - (2 ^ 52)"
        unfolding n_def using round_half_even_ge round_half_even_le by blast
      then have "2 ^ 52 \<le> \<bar>n\<bar>" by linarith
      then have "(of_int (2 ^ 52) :: rat) \<le> of_int \<bar>n\<bar>" by (simp only: of_int_le_iff)
      then have A: "of_int (2 ^ 52) * u \<le> of_int \<bar>n\<bar> * u"
        using u by (simp only: mult_le_cancel_right_pos)
      have B: "(2::rat) powi 1024 \<le> 2 powi (52 + ue)"
        using big by (intro power_int_increasing) auto
      have C: "(2::rat) powi (52 + ue) = of_int (2 ^ 52) * u"
      proof -
        have "(2::rat) powi (52 + ue) = 2 powi 52 * 2 powi ue" by (rule power_int_add) simp
        then show ?thesis by (simp add: u_def)
      qed
      have "(2::rat) powi (int 1024) = 2 ^ 1024" by (rule power_int_of_nat)
      moreover have "int 1024 = 1024" by simp
      ultimately have "(2::rat) ^ 1024 = 2 powi 1024" by (simp only:)
      also note B
      also note C
      also note A
      also have "of_int \<bar>n\<bar> * u = \<bar>of_int n * u\<bar>" by (rule abs_r [symmetric])
      finally have "2 ^ 1024 \<le> \<bar>of_int n * u\<bar>" .
      with fin show False by simp
    qed
    show ?thesis
    proof (cases "\<bar>n\<bar> < 2 ^ 53")
      case True
      have "to_double (of_int n * 2 powi ue) = Fin (of_int n * 2 powi ue)"
        using True ue_lo ue_hi by (intro to_double_exact [OF refl])
      then show ?thesis by (simp only: r u_def)
    next
      case False
      with n have n53: "\<bar>n\<bar> = 2 ^ 53" by linarith
      define m :: int where "m = (if 0 < n then 2 ^ 52 else - (2 ^ 52))"
      have "n = 2 ^ 53 \<or> n = - (2 ^ 53)" using n53 by linarith
      then have m: "n = m * 2" "\<bar>m\<bar> < 2 ^ 53" by (auto simp: m_def)
      \<comment> \<open>here the exponent can still be raised by one\<close>
      have "ue \<le> 970"
      proof (rule ccontr)
        assume "\<not> ue \<le> 970"
        with ue_hi have ue971: "ue = 971" by simp
        have n': "(of_int \<bar>n\<bar> :: rat) = 2 ^ 53" by (simp only: n53) simp
        have u': "u = 2 ^ 971" by (simp add: u_def ue971)
        have "\<bar>of_int n * u\<bar> = of_int \<bar>n\<bar> * u" by (rule abs_r)
        also have "\<dots> = 2 ^ 53 * 2 ^ 971" by (simp only: n' u')
        also have "\<dots> = (2::rat) ^ 1024" by simp
        finally show False using fin by simp
      qed
      with ue_lo have e: "- 1074 \<le> ue + 1" "ue + 1 \<le> 971" by simp_all
      have "to_double (of_int m * 2 powi (ue + 1)) = Fin (of_int m * 2 powi (ue + 1))"
        using m(2) e by (intro to_double_exact [OF refl])
      moreover have "of_int m * (2::rat) powi (ue + 1) = of_int n * 2 powi ue"
      proof -
        have "(2::rat) powi (ue + 1) = 2 powi ue * 2" by (rule power_int_add_1) simp
        then show ?thesis by (simp add: m(1))
      qed
      ultimately show ?thesis by (simp only: r u_def)
    qed
  qed
qed

lemma fdiv_one_rounded: "fdiv (to_double q) (Fin 1) = to_double q"
proof (cases "to_double q")
  case (Fin r)
  then show ?thesis using to_double_idem [OF Fin] by simp
qed (simp_all add: inf_of_sign_def fsign_def)

lemma fadd_fdiv_one: "fdiv (fadd x y) (Fin 1) = fadd x y"
  by (cases x; cases y) (simp_all add: fdiv_one_rounded inf_of_sign_def fsign_def)

lemma spot_return_Inr:
  assumes "spot_return p b = Inr m"
  shows "\<exists>z bp. p = Some z \<and> pcd_lastPrice b = Some bp \<and> m = spec_spot_return z bp"
  using assms
  by (auto simp: spot_return_def spec_spot_return_def bind_exn_Inr_iff py_truediv_Inr
      float_truediv_int_def float_of_int_1 float_truediv_Inr fadd_fdiv_one)

subsection \<open>The row of a successful iteration\<close>

text \<open>
  An iteration that obtains a block and pool data and completes writes one row, whose
  two returns are the two formulas at the sample and the baseline, rounded to six
  places.
\<close>

lemma loop_body_metrics:
  assumes "fetched net s = Some (blk, pd, h)" and "loop_body net s = Inr s'"
  obtains lp lpb p ts b bts bp r1 r2 row where
    "read_pool_data pd = Inr (Some lp, Some lpb, Some p, Some ts)"
    "b = (case pool_creation_data s of
            None \<Rightarrow> \<lparr>pcd_totalInvariant = fadd lp lpb, pcd_totalSupply = Some ts,
                      pcd_lastPrice = Some p\<rparr>
          | Some d \<Rightarrow> d)"
    "pool_creation_data s' = Some b"
    "pcd_totalSupply b = Some bts" "pcd_lastPrice b = Some bp"
    "py_round (spec_lp_return (fadd lp lpb) ts p (pcd_totalInvariant b) bts bp) 6 = Inr r1"
    "py_round (spec_spot_return p bp) 6 = Inr r2"
    "csv_file s' = save_to_csv row (csv_file s)"
    "totalLPReturnPercent row = Some r1" "spotReturnPercent row = Some r2"
proof -
  from assms obtain lp lpb p ts b m1 m2 row where
    rd: "read_pool_data pd = Inr (Some lp, Some lpb, Some p, Some ts)"
    and b: "b = (case pool_creation_data s of
            None \<Rightarrow> \<lparr>pcd_totalInvariant = fadd lp lpb, pcd_totalSupply = Some ts,
                      pcd_lastPrice = Some p\<rparr>
          | Some d \<Rightarrow> d)"
    and m1: "lp_return (fadd lp lpb) (Some ts) (Some p) b = Inr m1"
    and m2: "spot_return (Some p) b = Inr m2"
    and row: "make_row (current_timestamp s) blk (fadd lp lpb) (Some ts) (Some p) (Some m1)
        (Some m2) = Inr row"
    and s': "s' = s\<lparr>current_timestamp := current_timestamp s + 604800,
              pool_creation_data := Some b,
              csv_file := save_to_csv row (csv_file s), sent := h\<rparr>"
    by (rule loop_body_success)
  from lp_return_Inr [OF m1] obtain bts bp where
    base: "pcd_totalSupply b = Some bts" "pcd_lastPrice b = Some bp"
    and m1_eq: "m1 = spec_lp_return (fadd lp lpb) ts p (pcd_totalInvariant b) bts bp"
    by auto
  from spot_return_Inr [OF m2] base(2) have m2_eq: "m2 = spec_spot_return p bp" by auto
  from make_row_Inr [OF row] obtain r1 r2 where
    r: "py_round m1 6 = Inr r1" "totalLPReturnPercent row = Some r1"
       "py_round m2 6 = Inr r2" "spotReturnPercent row = Some r2" by auto
  show ?thesis
  proof (rule that [of lp lpb p ts b bts bp r1 r2 row])
    show "pool_creation_data s' = Some b" by (simp add: s')
    show "csv_file s' = save_to_csv row (csv_file s)" by (simp add: s')
    show "py_round (spec_lp_return (fadd lp lpb) ts p (pcd_totalInvariant b) bts bp) 6 = Inr r1"
      using r(1) by (simp only: m1_eq)
    show "py_round (spec_spot_return p bp) 6 = Inr r2" using r(3) by (simp only: m2_eq)
  qed (fact rd b base r)+
qed

subsection \<open>Failed steps of the example runs\<close>






lemma late_files:
  "csv_file late_first = Some [Header fieldnames, Row first_row]"
  "csv_file late_second = Some [Header fieldnames, Row first_row, Row second_row]"
  by (simp_all add: late_first_def late_second_def)

lemma second_row_returns:
  "totalLPReturnPercent second_row = Some (Fin 0)" "spotReturnPercent second_row = Some (Fin 0)"
  by (simp_all add: second_row_def)

section \<open>The claims\<close>

subsection \<open>C7: \<open>normalize_value\<close> and the exceptions it lets through\<close>

text \<open>
  Claim C7 says that \<open>normalize_value\<close> is total from the caller's perspective: for every
  input value and decimal count it returns the value divided by \<open>10^decimals\<close> or
  returns \<open>None\<close>, and never raises past the caller. The \<open>except\<close> clause names
  \<open>TypeError\<close> and \<open>ValueError\<close> only. For the integer \<open>10^400\<close>, which a JSON body
  can hold, \<open>float(value)\<close> raises \<open>OverflowError\<close>, and the call raises it too.
\<close>

theorem normalize_value_raises_overflow:
  "normalize_value (JInt (10 ^ 400)) 12 = Inl OverflowError"
proof -
  have "(2::rat) ^ 1024 \<le> of_int (10 ^ 400)" by simp
  then have "to_double (of_int (10 ^ 400)) = PInf" by (rule to_double_overflow)
  then show ?thesis
    by (simp only: normalize_value_def py_float.simps float_of_int_def pyfloat.case
        bind_exn.simps sum.case exn.case)
qed

subsection \<open>C3: a field that does not normalize\<close>

lemma get_block_null:
  "get_block_from_timestamp 1711690366 (scripted null_invariant_script) []
     = Inr (JInt 100, [BlockQuery 1711690366])"
  by (simp add: get_block_from_timestamp_def network_eval null_invariant_script_def)

lemma query_pool_null:
  "query_pool_at_block (scripted null_invariant_script) pool_id (JInt 100)
       [BlockQuery 1711690366]
     = Inr (null_invariant_pool, [BlockQuery 1711690366, PoolQuery pool_id (JInt 100)])"
  by (simp add: query_pool_at_block_def network_eval null_invariant_script_def)

lemma py_truthy_null_invariant_pool: "py_truthy null_invariant_pool"
  by (simp add: null_invariant_pool_def pool_record_def)

lemma read_pool_data_null:
  "read_pool_data null_invariant_pool = Inr (None, Some (Fin 0), Some (Fin 1), Some (Fin 10))"
  by (simp add: read_pool_data_def null_invariant_pool_def pool_record_def normalize_eval)

text \<open>
  Whenever one of the four normalizations yields \<open>None\<close>, the branch that processes the
  pool data raises: it cannot complete, since completing needs four floats.
\<close>

lemma process_pool_data_none_raises:
  assumes "read_pool_data pool_data = Inr (lp, lpb, p, ts)"
    and "lp = None \<or> lpb = None \<or> p = None \<or> ts = None"
  shows "\<exists>e. process_pool_data s block_number pool_data = Inl e"
proof (cases "process_pool_data s block_number pool_data")
  case (Inl e)
  then show ?thesis by blast
next
  case (Inr s')
  then obtain lp' lpb' p' ts' where
    "read_pool_data pool_data = Inr (Some lp', Some lpb', Some p', Some ts')"
    by (rule process_pool_data_Inr)
  with assms show ?thesis by auto
qed

text \<open>
  Claim C3 says that a step in which one of the four normalizations yields \<open>None\<close> is
  treated as a failed step and skipped: no row, no change of state, no arithmetic on the
  missing value, and the loop goes on to the next cursor. The script has no such guard.
  With a pool record whose \<open>lpInvariant\<close> is \<open>null\<close>, \<open>normalize_value\<close> returns
  \<open>None\<close>, line 122 adds \<open>None\<close> to a float, and the iteration raises \<open>TypeError\<close>,
  which ends the run.
\<close>

theorem loop_body_none_raises:
  "loop_body (scripted null_invariant_script) start_state = Inl TypeError"
  by (simp add: loop_body_def start_state_def get_block_null query_pool_null
      py_truthy_null_invariant_pool read_pool_data_null process_pool_data_def
      capture_creation_data_def py_add_def)

subsection \<open>C4: the cursor and the end of the loop\<close>




subsection \<open>C5: a start and an end bound one step apart\<close>

text \<open>
  Claim C5 says that a run whose start and end bound are exactly 604800 seconds apart
  performs exactly one iteration. The loop condition is \<open>current_timestamp <=
  today_timestamp\<close>, so the bound itself is sampled too: in the example run the loop
  sends two block queries and returns the state after the second iteration, not the
  state after the first.
\<close>

theorem one_step_apart_counterexample:
  "1712295166 = current_timestamp start_state + 604800
   \<and> main_loop (scripted two_week_script) 1712295166 start_state
       \<noteq> iterate_body 1 (scripted two_week_script) start_state
   \<and> main_loop (scripted two_week_script) 1712295166 start_state = Inr after_second
   \<and> sent after_second
       = [BlockQuery 1711690366, PoolQuery pool_id (JInt 100),
          BlockQuery 1712295166, PoolQuery pool_id (JInt 200)]"
  by (simp add: main_loop_two_week loop_body_first example_cursors after_first_def
      after_second_def)

text \<open>
  Claim C5 as amended: with the bound exactly one step after the start the body runs
  twice (once if the first iteration raises), and it runs exactly once when the bound
  is less than one step after the start.
\<close>

theorem one_step_apart_two_iterations:
  "(today = current_timestamp s + 604800 \<longrightarrow>
      main_loop net today s = iterate_body 2 net s)
   \<and> (current_timestamp s \<le> today \<and> today < current_timestamp s + 604800 \<longrightarrow>
      main_loop net today s = iterate_body 1 net s)"
  by (auto simp: main_loop_iterate iterations_def numeral_2_eq_2)

theorem one_step_apart_two_iterations_witness:
  "1712295166 = current_timestamp start_state + 604800
   \<and> main_loop (scripted two_week_script) 1712295166 start_state
       = iterate_body 2 (scripted two_week_script) start_state
   \<and> current_timestamp start_state \<le> 1711690366 + 604799
   \<and> 1711690366 + 604799 < current_timestamp start_state + 604800
   \<and> main_loop (scripted two_week_script) (1711690366 + 604799) start_state
       = iterate_body 1 (scripted two_week_script) start_state"
  using one_step_apart_two_iterations [of 1712295166 start_state "scripted two_week_script"]
    one_step_apart_two_iterations [of "1711690366 + 604799" start_state "scripted two_week_script"]
  by (simp add: example_cursors)

subsection \<open>C9: a block number that is false\<close>

text \<open>
  Claim C9: when the block resolver yields the block number 0, or any other value that
  is false such as the empty string, the driver treats it as no block found and skips
  the step without calling the pool fetcher. The integer 0 and the empty string are
  false; and when \<open>get_block_from_timestamp\<close> returns a false value the iteration only
  advances the cursor, the block query being the one request it has sent.
\<close>

theorem falsy_block_number_skips:
  "\<not> py_truthy (JInt 0) \<and> \<not> py_truthy (JStr [])
   \<and> (get_block_from_timestamp (current_timestamp s) net (sent s) = Inr (block_number, h)
        \<and> \<not> py_truthy block_number \<longrightarrow>
      loop_body net s
        = Inr (s\<lparr>current_timestamp := current_timestamp s + 604800,
                 sent := sent s @ [BlockQuery (current_timestamp s)]\<rparr>))"
  by (auto simp: loop_body_def dest: get_block_sent)

theorem falsy_block_number_skips_witness:
  "get_block_from_timestamp (current_timestamp start_state) (scripted zero_block_script)
       (sent start_state) = Inr (JInt 0, [BlockQuery 1711690366])
   \<and> \<not> py_truthy (JInt 0)
   \<and> loop_body (scripted zero_block_script) start_state
        = Inr \<lparr>current_timestamp = 1712295166, pool_creation_data = None, csv_file = None,
               sent = [BlockQuery 1711690366]\<rparr>"
  using falsy_block_number_skips [of start_state "scripted zero_block_script" "JInt 0"
      "[BlockQuery 1711690366]"]
  by (simp add: example_cursors sent_start_state get_block_zero) (simp add: start_state_def)

subsection \<open>C1: the emitted pool return\<close>

text \<open>
  Claim C1 says that, for every successful step with an established baseline whose fields
  are nonzero, the emitted \<open>totalLPReturnPercent\<close> equals the formula
  \<open>((totalInvariant / baseline.totalInvariant) / (totalSupply / baseline.totalSupply))
  * sqrt(lastPrice / baseline.lastPrice) - 1\<close>, with \<open>totalInvariant = lpInvariant +
  lpBorrowedInvariant\<close>. The value put into the row is \<open>round(..., 6)\<close> of the formula.
  In the second week of the example run the formula gives \<open>2^-21\<close>, about 0.00000048,
  and the row holds 0.
\<close>

theorem emitted_lp_return_counterexample:
  "fetched (scripted two_week_script) after_first
     = Some (JInt 200, second_pool, [BlockQuery 1711690366, PoolQuery pool_id (JInt 100),
              BlockQuery 1712295166, PoolQuery pool_id (JInt 200)])
   \<and> pool_creation_data after_first
       = Some \<lparr>pcd_totalInvariant = Fin 2097152, pcd_totalSupply = Some (Fin 10),
                pcd_lastPrice = Some (Fin 1)\<rparr>
   \<and> read_pool_data second_pool
       = Inr (Some (Fin 2097153), Some (Fin 0), Some (Fin 1), Some (Fin 10))
   \<and> loop_body (scripted two_week_script) after_first = Inr after_second
   \<and> csv_file after_second = save_to_csv second_row (csv_file after_first)
   \<and> totalLPReturnPercent second_row = Some (Fin 0)
   \<and> spec_lp_return (fadd (Fin 2097153) (Fin 0)) (Fin 10) (Fin 1)
         (Fin 2097152) (Fin 10) (Fin 1) = Fin (1 / 2097152)
   \<and> totalLPReturnPercent second_row
       \<noteq> Some (spec_lp_return (fadd (Fin 2097153) (Fin 0)) (Fin 10) (Fin 1)
                 (Fin 2097152) (Fin 10) (Fin 1))"
  by (simp only: fetched_second read_pool_data_second loop_body_second
        spec_lp_return_second simp_thms)
     (simp add: after_first_def after_second_def first_baseline_def second_row_def
        save_to_csv_def)

text \<open>
  Claim C1 as amended: in every iteration that obtains pool data with a baseline in place
  and completes, the four fields have normalized to floats, the baseline has a supply
  and a price, and the \<open>totalLPReturnPercent\<close> of the row written is the formula,
  computed from the sample of the step and the baseline, rounded to 6 decimal places.
\<close>

theorem emitted_lp_return_is_rounded_formula:
  assumes "fetched net s = Some (block_number, pool_data, h)"
    and "pool_creation_data s = Some b"
    and "loop_body net s = Inr s'"
  shows "\<exists>lp lpb p ts bts bp r row.
      read_pool_data pool_data = Inr (Some lp, Some lpb, Some p, Some ts)
      \<and> pcd_totalSupply b = Some bts \<and> pcd_lastPrice b = Some bp
      \<and> py_round (spec_lp_return (fadd lp lpb) ts p (pcd_totalInvariant b) bts bp) 6 = Inr r
      \<and> csv_file s' = save_to_csv row (csv_file s)
      \<and> totalLPReturnPercent row = Some r"
proof -
  from assms(3) have "process_pool_data (s\<lparr>sent := h\<rparr>) block_number pool_data = Inr s'"
    by (simp only: loop_body_fetched [OF assms(1)])
  then obtain lp lpb p ts b' m1 m2 row where
    rd: "read_pool_data pool_data = Inr (Some lp, Some lpb, Some p, Some ts)"
    and b': "b' = (case pool_creation_data (s\<lparr>sent := h\<rparr>) of
            None \<Rightarrow> \<lparr>pcd_totalInvariant = fadd lp lpb, pcd_totalSupply = Some ts,
                      pcd_lastPrice = Some p\<rparr>
          | Some d \<Rightarrow> d)"
    and m1: "lp_return (fadd lp lpb) (Some ts) (Some p) b' = Inr m1"
    and row: "make_row (current_timestamp (s\<lparr>sent := h\<rparr>)) block_number (fadd lp lpb)
       (Some ts) (Some p) (Some m1) (Some m2) = Inr row"
    and s': "s' = s\<lparr>sent := h\<rparr>\<lparr>current_timestamp := current_timestamp (s\<lparr>sent := h\<rparr>) + 604800,
              pool_creation_data := Some b',
              csv_file := save_to_csv row (csv_file (s\<lparr>sent := h\<rparr>))\<rparr>"
    by (rule process_pool_data_Inr)
  from b' assms(2) have bb: "b' = b" by simp
  from lp_return_Inr [OF m1] obtain bts bp where
    base: "pcd_totalSupply b = Some bts" "pcd_lastPrice b = Some bp"
    and m1_eq: "m1 = spec_lp_return (fadd lp lpb) ts p (pcd_totalInvariant b) bts bp"
    by (auto simp: bb)
  from make_row_Inr [OF row] obtain r where
    r: "py_round m1 6 = Inr r" "totalLPReturnPercent row = Some r" by auto
  from s' have csv: "csv_file s' = save_to_csv row (csv_file s)" by simp
  show ?thesis using rd base r csv unfolding m1_eq by blast
qed

theorem emitted_lp_return_is_rounded_formula_witness:
  "fetched (scripted two_week_script) after_first
     = Some (JInt 200, second_pool, [BlockQuery 1711690366, PoolQuery pool_id (JInt 100),
              BlockQuery 1712295166, PoolQuery pool_id (JInt 200)])
   \<and> pool_creation_data after_first = Some first_baseline
   \<and> loop_body (scripted two_week_script) after_first = Inr after_second
   \<and> (\<exists>lp lpb p ts bts bp r row.
      read_pool_data second_pool = Inr (Some lp, Some lpb, Some p, Some ts)
      \<and> pcd_totalSupply first_baseline = Some bts \<and> pcd_lastPrice first_baseline = Some bp
      \<and> py_round (spec_lp_return (fadd lp lpb) ts p (pcd_totalInvariant first_baseline) bts bp) 6
          = Inr r
      \<and> csv_file after_second = save_to_csv row (csv_file after_first)
      \<and> totalLPReturnPercent row = Some r)"
proof -
  have b: "pool_creation_data after_first = Some first_baseline"
    by (simp add: after_first_def)
  show ?thesis
    using emitted_lp_return_is_rounded_formula [OF fetched_second b loop_body_second]
      fetched_second b loop_body_second by simp
qed

subsection \<open>C6: the metrics of the baseline step\<close>



subsection \<open>C10: where rounding is applied\<close>



subsection \<open>C2: the baseline is set once\<close>

text \<open>
  Claim C2: the baseline is set exactly once per run and never overwritten. For a run
  that starts without a baseline, where the first \<open>k\<close> steps fail and step \<open>k + 1\<close>
  succeeds, there is still no baseline after the \<open>k\<close> steps; after step \<open>k + 1\<close> the
  baseline is that step's normalized values, \<open>totalInvariant = lpInvariant +
  lpBorrowedInvariant\<close>, \<open>totalSupply\<close> and \<open>lastPrice\<close>; it is the baseline after
  any number of further iterations, whatever their outcomes; and the row of step
  \<open>k + 1\<close> and of every later iteration that writes one holds the two formulas of the
  specification, rounded to six places, with the sample of that iteration divided by
  these three values of step \<open>k + 1\<close>.
\<close>

theorem baseline_set_once:
  assumes "pool_creation_data s0 = None"
    and "all_skipped k net s0" and "iterate_body k net s0 = Inr sk"
    and "fetched net sk = Some (block_number, pool_data, h)"
    and "loop_body net sk = Inr sk1"
  shows "\<exists>lp lpb p ts b.
      read_pool_data pool_data = Inr (Some lp, Some lpb, Some p, Some ts)
      \<and> b = \<lparr>pcd_totalInvariant = fadd lp lpb, pcd_totalSupply = Some ts,
               pcd_lastPrice = Some p\<rparr>
      \<and> pool_creation_data sk = None
      \<and> pool_creation_data sk1 = Some b
      \<and> (\<forall>n t. iterate_body n net sk1 = Inr t \<longrightarrow> pool_creation_data t = Some b)
      \<and> (\<exists>r1 r2 row.
            py_round (spec_lp_return (fadd lp lpb) ts p (fadd lp lpb) ts p) 6 = Inr r1
            \<and> py_round (spec_spot_return p p) 6 = Inr r2
            \<and> csv_file sk1 = save_to_csv row (csv_file sk)
            \<and> totalLPReturnPercent row = Some r1
            \<and> spotReturnPercent row = Some r2)
      \<and> (\<forall>n t blk pd h' t'.
            iterate_body n net sk1 = Inr t \<and> fetched net t = Some (blk, pd, h')
            \<and> loop_body net t = Inr t' \<longrightarrow>
            (\<exists>lp' lpb' p' ts' r1 r2 row.
               read_pool_data pd = Inr (Some lp', Some lpb', Some p', Some ts')
               \<and> py_round (spec_lp_return (fadd lp' lpb') ts' p' (fadd lp lpb) ts p) 6 = Inr r1
               \<and> py_round (spec_spot_return p' p) 6 = Inr r2
               \<and> csv_file t' = save_to_csv row (csv_file t)
               \<and> totalLPReturnPercent row = Some r1
               \<and> spotReturnPercent row = Some r2))"
proof -
  from all_skipped_unchanged [OF assms(2,3)] assms(1)
  have none: "pool_creation_data sk = None" by simp
  from assms(4,5) obtain lp lpb p ts b bts bp r1 r2 row where
    rd: "read_pool_data pool_data = Inr (Some lp, Some lpb, Some p, Some ts)"
    and b: "b = (case pool_creation_data sk of
            None \<Rightarrow> \<lparr>pcd_totalInvariant = fadd lp lpb, pcd_totalSupply = Some ts,
                      pcd_lastPrice = Some p\<rparr>
          | Some d \<Rightarrow> d)"
    and base: "pool_creation_data sk1 = Some b"
    and f: "pcd_totalSupply b = Some bts" "pcd_lastPrice b = Some bp"
    and own: "py_round (spec_lp_return (fadd lp lpb) ts p (pcd_totalInvariant b) bts bp) 6 = Inr r1"
      "py_round (spec_spot_return p bp) 6 = Inr r2"
      "csv_file sk1 = save_to_csv row (csv_file sk)"
      "totalLPReturnPercent row = Some r1" "spotReturnPercent row = Some r2"
    by (rule loop_body_metrics)
  from b none have b_eq: "b = \<lparr>pcd_totalInvariant = fadd lp lpb, pcd_totalSupply = Some ts,
               pcd_lastPrice = Some p\<rparr>" by simp
  from f have fields: "bts = ts" "bp = p" by (simp_all add: b_eq)
  have ti: "pcd_totalInvariant b = fadd lp lpb" by (simp add: b_eq)
  have later: "pool_creation_data t = Some b" if "iterate_body n net sk1 = Inr t" for n t
    using base that by (rule iterate_body_baseline)
  have metrics: "\<exists>lp' lpb' p' ts' r1 r2 row.
               read_pool_data pd = Inr (Some lp', Some lpb', Some p', Some ts')
               \<and> py_round (spec_lp_return (fadd lp' lpb') ts' p' (fadd lp lpb) ts p) 6 = Inr r1
               \<and> py_round (spec_spot_return p' p) 6 = Inr r2
               \<and> csv_file t' = save_to_csv row (csv_file t)
               \<and> totalLPReturnPercent row = Some r1
               \<and> spotReturnPercent row = Some r2"
    if it: "iterate_body n net sk1 = Inr t" and ft: "fetched net t = Some (blk, pd, h')"
      and step: "loop_body net t = Inr t'" for n t blk pd h' t'
  proof -
    from ft step obtain lp' lpb' p' ts' b' bts' bp' r1 r2 row where
      rd': "read_pool_data pd = Inr (Some lp', Some lpb', Some p', Some ts')"
      and b': "b' = (case pool_creation_data t of
            None \<Rightarrow> \<lparr>pcd_totalInvariant = fadd lp' lpb', pcd_totalSupply = Some ts',
                      pcd_lastPrice = Some p'\<rparr>
          | Some d \<Rightarrow> d)"
      and f': "pcd_totalSupply b' = Some bts'" "pcd_lastPrice b' = Some bp'"
      and r: "py_round (spec_lp_return (fadd lp' lpb') ts' p' (pcd_totalInvariant b') bts' bp') 6
          = Inr r1"
        "py_round (spec_spot_return p' bp') 6 = Inr r2"
        "csv_file t' = save_to_csv row (csv_file t)"
        "totalLPReturnPercent row = Some r1" "spotReturnPercent row = Some r2"
      by (rule loop_body_metrics)
    from b' later [OF it] have bb: "b' = b" by simp
    from f' have e: "bts' = ts" "bp' = p" by (simp_all add: bb b_eq)
    from r(1,2) have
      "py_round (spec_lp_return (fadd lp' lpb') ts' p' (fadd lp lpb) ts p) 6 = Inr r1"
      "py_round (spec_spot_return p' p) 6 = Inr r2"
      by (simp_all only: e bb ti)
    with rd' r(3,4,5) show ?thesis by (intro exI conjI) assumption+
  qed
  from own have own':
    "py_round (spec_lp_return (fadd lp lpb) ts p (fadd lp lpb) ts p) 6 = Inr r1"
    "py_round (spec_spot_return p p) 6 = Inr r2"
    by (simp_all only: fields ti)
  show ?thesis
  proof (intro exI conjI)
    show "read_pool_data pool_data = Inr (Some lp, Some lpb, Some p, Some ts)" by (rule rd)
    show "b = \<lparr>pcd_totalInvariant = fadd lp lpb, pcd_totalSupply = Some ts,
               pcd_lastPrice = Some p\<rparr>" by (rule b_eq)
    show "pool_creation_data sk = None" by (rule none)
    show "pool_creation_data sk1 = Some b" by (rule base)
    show "\<forall>n t. iterate_body n net sk1 = Inr t \<longrightarrow> pool_creation_data t = Some b"
      by (intro allI impI) (rule later)
    show "py_round (spec_lp_return (fadd lp lpb) ts p (fadd lp lpb) ts p) 6 = Inr r1"
      by (rule own'(1))
    show "py_round (spec_spot_return p p) 6 = Inr r2" by (rule own'(2))
    show "csv_file sk1 = save_to_csv row (csv_file sk)" by (rule own(3))
    show "totalLPReturnPercent row = Some r1" by (rule own(4))
    show "spotReturnPercent row = Some r2" by (rule own(5))
    show "\<forall>n t blk pd h' t'.
            iterate_body n net sk1 = Inr t \<and> fetched net t = Some (blk, pd, h')
            \<and> loop_body net t = Inr t' \<longrightarrow>
            (\<exists>lp' lpb' p' ts' r1 r2 row.
               read_pool_data pd = Inr (Some lp', Some lpb', Some p', Some ts')
               \<and> py_round (spec_lp_return (fadd lp' lpb') ts' p' (fadd lp lpb) ts p) 6 = Inr r1
               \<and> py_round (spec_spot_return p' p) 6 = Inr r2
               \<and> csv_file t' = save_to_csv row (csv_file t)
               \<and> totalLPReturnPercent row = Some r1
               \<and> spotReturnPercent row = Some r2)"
      by (intro allI impI, elim conjE) (rule metrics)
  qed
qed

theorem baseline_set_once_witness:
  "pool_creation_data early_state = None
   \<and> all_skipped 1 (scripted late_script) early_state
   \<and> iterate_body 1 (scripted late_script) early_state = Inr late_start
   \<and> fetched (scripted late_script) late_start
       = Some (JInt 100, first_pool,
               [BlockQuery 1711085566, BlockQuery 1711690366, PoolQuery pool_id (JInt 100)])
   \<and> loop_body (scripted late_script) late_start = Inr late_first
   \<and> read_pool_data first_pool
       = Inr (Some (Fin 2097152), Some (Fin 0), Some (Fin 1), Some (Fin 10))
   \<and> pool_creation_data late_first
       = Some \<lparr>pcd_totalInvariant = fadd (Fin 2097152) (Fin 0),
                pcd_totalSupply = Some (Fin 10), pcd_lastPrice = Some (Fin 1)\<rparr>
   \<and> iterate_body 1 (scripted late_script) late_first = Inr late_second
   \<and> pool_creation_data late_second = pool_creation_data late_first
   \<and> iterate_body 0 (scripted late_script) late_first = Inr late_first
   \<and> fetched (scripted late_script) late_first
       = Some (JInt 200, second_pool,
               [BlockQuery 1711085566, BlockQuery 1711690366, PoolQuery pool_id (JInt 100),
                BlockQuery 1712295166, PoolQuery pool_id (JInt 200)])
   \<and> loop_body (scripted late_script) late_first = Inr late_second
   \<and> read_pool_data second_pool
       = Inr (Some (Fin 2097153), Some (Fin 0), Some (Fin 1), Some (Fin 10))
   \<and> csv_file late_second = save_to_csv second_row (csv_file late_first)
   \<and> py_round (spec_lp_return (fadd (Fin 2097153) (Fin 0)) (Fin 10) (Fin 1)
         (fadd (Fin 2097152) (Fin 0)) (Fin 10) (Fin 1)) 6
       = Inr (Fin 0)
   \<and> totalLPReturnPercent second_row = Some (Fin 0)
   \<and> py_round (spec_spot_return (Fin 1) (Fin 1)) 6 = Inr (Fin 0)
   \<and> spotReturnPercent second_row = Some (Fin 0)"
proof -
  have 1: "pool_creation_data early_state = None" by (simp add: early_state_def)
  have 2: "all_skipped 1 (scripted late_script) early_state"
    by (simp add: fetched_early loop_body_early)
  have 3: "iterate_body 1 (scripted late_script) early_state = Inr late_start"
    by (simp add: loop_body_early)
  have 4: "iterate_body 1 (scripted late_script) late_first = Inr late_second"
    by (simp add: loop_body_late_first)
  have 5: "iterate_body 0 (scripted late_script) late_first = Inr late_first"
    by simp
  from baseline_set_once [OF 1 2 3 fetched_late_start loop_body_late_start]
  obtain lp lpb p ts b where
    rd: "read_pool_data first_pool = Inr (Some lp, Some lpb, Some p, Some ts)"
    and b: "b = \<lparr>pcd_totalInvariant = fadd lp lpb, pcd_totalSupply = Some ts,
               pcd_lastPrice = Some p\<rparr>"
    and base: "pool_creation_data late_first = Some b"
    and later: "\<forall>n t. iterate_body n (scripted late_script) late_first = Inr t
                 \<longrightarrow> pool_creation_data t = Some b"
    and metrics: "\<forall>n t blk pd h' t'.
            iterate_body n (scripted late_script) late_first = Inr t
            \<and> fetched (scripted late_script) t = Some (blk, pd, h')
            \<and> loop_body (scripted late_script) t = Inr t' \<longrightarrow>
            (\<exists>lp' lpb' p' ts' r1 r2 row.
               read_pool_data pd = Inr (Some lp', Some lpb', Some p', Some ts')
               \<and> py_round (spec_lp_return (fadd lp' lpb') ts' p' (fadd lp lpb) ts p) 6 = Inr r1
               \<and> py_round (spec_spot_return p' p) 6 = Inr r2
               \<and> csv_file t' = save_to_csv row (csv_file t)
               \<and> totalLPReturnPercent row = Some r1
               \<and> spotReturnPercent row = Some r2)"
    by (elim exE conjE)
  from rd have v: "lp = Fin 2097152" "lpb = Fin 0" "p = Fin 1" "ts = Fin 10"
    by (simp_all add: read_pool_data_first)
  from later 4 have 6: "pool_creation_data late_second = Some b" by blast
  from metrics 5 fetched_late_first loop_body_late_first
  obtain lp' lpb' p' ts' r1 r2 row where
    rd': "read_pool_data second_pool = Inr (Some lp', Some lpb', Some p', Some ts')"
    and r1: "py_round (spec_lp_return (fadd lp' lpb') ts' p' (fadd lp lpb) ts p) 6 = Inr r1"
    and r2: "py_round (spec_spot_return p' p) 6 = Inr r2"
    and csv: "csv_file late_second = save_to_csv row (csv_file late_first)"
    and row: "totalLPReturnPercent row = Some r1" "spotReturnPercent row = Some r2"
    by blast
  from rd' have v': "lp' = Fin 2097153" "lpb' = Fin 0" "p' = Fin 1" "ts' = Fin 10"
    by (simp_all add: read_pool_data_second)
  from csv have row_eq: "row = second_row" by (simp add: late_files save_to_csv_def)
  from row have r: "r1 = Fin 0" "r2 = Fin 0" by (simp_all add: row_eq second_row_returns)
  have 7: "py_round (spec_lp_return (fadd (Fin 2097153) (Fin 0)) (Fin 10) (Fin 1)
         (fadd (Fin 2097152) (Fin 0)) (Fin 10) (Fin 1)) 6 = Inr (Fin 0)"
    using r1 by (simp only: v v' r)
  have 8: "py_round (spec_spot_return (Fin 1) (Fin 1)) 6 = Inr (Fin 0)"
    using r2 by (simp only: v v' r)
  have 9: "csv_file late_second = save_to_csv second_row (csv_file late_first)"
    using csv by (simp only: row_eq)
  have 10: "pool_creation_data late_first
       = Some \<lparr>pcd_totalInvariant = fadd (Fin 2097152) (Fin 0),
                pcd_totalSupply = Some (Fin 10), pcd_lastPrice = Some (Fin 1)\<rparr>"
    using base by (simp only: b v)
  have 11: "pool_creation_data late_second = pool_creation_data late_first"
    using 6 base by simp
  from 1 2 3 4 5 7 8 9 10 11 show ?thesis
    by (simp only: fetched_late_start loop_body_late_start read_pool_data_first
        fetched_late_first loop_body_late_first read_pool_data_second second_row_returns
        simp_thms)
qed

subsection \<open>C8: \<open>normalize_value\<close> against multiplication by the power of ten\<close>

text \<open>
  Claim C8: for all valid fixed-point inputs \<open>v\<close> and decimal-place counts \<open>d\<close>,
  \<open>normalize(v, d) * 10^d == v\<close> within floating-point tolerance. The inputs taken are
  the integers of magnitude up to \<open>2^1000\<close>, given as a JSON integer or as a string of
  digits, and the counts up to 300, for which no conversion leaves the range of
  binary64; the tolerance is a relative error of \<open>2^-51\<close>, four units of the rounding
  error of one operation, for the three roundings of \<open>float(v)\<close>, the division and
  the multiplication. The call returns a finite float, the product is a finite float,
  and the product is within that tolerance of \<open>v\<close>.
\<close>

theorem normalize_inverse_within_tolerance:
  assumes "fixed_point value = Some v" and "\<bar>v\<bar> \<le> 2 ^ 1000" and "d \<le> 300"
  shows "\<exists>x y. normalize_value value d = Inr (Some (Fin x))
           \<and> float_mul_int (Fin x) (10 ^ d) = Inr (Fin y)
           \<and> \<bar>y - of_int v\<bar> \<le> \<bar>of_int v\<bar> / 2 ^ 51"
proof (cases "v = 0")
  case True
  with assms(1) have "fixed_point value = Some 0" by simp
  from normalize_roundtrip_zero [OF this assms(3)] True show ?thesis
    by (intro exI [of _ 0]) simp
next
  case False
  with assms show ?thesis by (intro normalize_roundtrip_nonzero)
qed

theorem normalize_inverse_within_tolerance_witness:
  "fixed_point (JInt 12000000000000) = Some 12000000000000
   \<and> \<bar>12000000000000\<bar> \<le> (2::int) ^ 1000
   \<and> (12::nat) \<le> 300
   \<and> (\<exists>x y. normalize_value (JInt 12000000000000) 12 = Inr (Some (Fin x))
           \<and> float_mul_int (Fin x) (10 ^ 12) = Inr (Fin y)
           \<and> \<bar>y - of_int 12000000000000\<bar> \<le> \<bar>of_int 12000000000000\<bar> / 2 ^ 51)"
proof -
  have 1: "fixed_point (JInt 12000000000000) = Some 12000000000000"
    by (simp add: fixed_point_def)
  have 2: "\<bar>12000000000000\<bar> \<le> (2::int) ^ 1000" by simp
  have 3: "(12::nat) \<le> 300" by simp
  from normalize_inverse_within_tolerance [OF 1 2 3] 1 2 3 show ?thesis
    by (intro conjI)
qed

end
